theory Spec2Isabelle
  imports Main "HOL-Library.AList"
begin

section \<open>Presence and call-routing coordinator of the video-call server\<close>

text \<open>
  The repository holds several generations of the signalling server. Two of them keep the
  directory of registered users, the busy flag, the call bindings and the waiting queue that
  the specification describes:
  \<^item> the object-based \<^verbatim>\<open>server.js\<close> (\<^verbatim>\<open>src/unnamed/part_000\<close>), whose state is the three
    globals \<^verbatim>\<open>users\<close>, \<^verbatim>\<open>activeCalls\<close> and \<^verbatim>\<open>waitingQueue\<close>;
  \<^item> the Map-based \<^verbatim>\<open>server.js\<close> (\<^verbatim>\<open>src/unnamed/part_001\<close>, first document), whose state
    is the object \<^verbatim>\<open>state\<close> with \<^verbatim>\<open>users\<close>, \<^verbatim>\<open>userSockets\<close>, \<^verbatim>\<open>activeCalls\<close>
    and \<^verbatim>\<open>waitingQueue\<close>.
  Both are embedded. Names shared by the two files carry the suffix \<open>0\<close> (part_000) or
  \<open>1\<close> (part_001); a name that only one file has is kept as it is. The room-based servers
  (\<^verbatim>\<open>src/index.js\<close>, \<^verbatim>\<open>part_002\<close>, \<^verbatim>\<open>part_003\<close> and the second document of
  \<^verbatim>\<open>part_001\<close>) have no user ids, busy flags or queue of ids and are not modelled.

  Modelling conventions.
  \<^item> A handler takes the id of the socket it runs for, the fields of its payload and the
    state; it returns the new state and the messages it emits, in the order of emission.
  \<^item> Payloads are well-formed objects, and socket ids and participant ids are strings.
    Socket ids come from the transport and are never empty, so the truthiness test of a
    looked-up socket id is the test that the lookup found one. Participant ids come from
    clients: the tests \<^verbatim>\<open>!userId\<close> and \<^verbatim>\<open>!partnerId\<close> are, for a string, the tests
    for the empty string.
  \<^item> \<^verbatim>\<open>users\<close> is iterated in insertion order (\<^verbatim>\<open>Object.keys\<close>,
    \<^verbatim>\<open>Map.values\<close>), so it is an association list with the update, delete and entry-wise
    map of the library theory \<open>AList\<close>; the other tables are only read by key and are maps.
  \<^item> The plain object \<^verbatim>\<open>activeCalls\<close> of part_000 is indexed by ids that clients choose;
    it is modelled with the members it inherits from \<^verbatim>\<open>Object.prototype\<close> (see
    \<open>objGet\<close>, \<open>objSet\<close>, \<open>objDelete\<close>). The object \<^verbatim>\<open>users\<close> is indexed by socket ids,
    which the transport generates.
\<close>

subsection \<open>Messages\<close>

type_synonym sid = string
type_synonym uid = string
type_synonym payload = string

datatype sink = To sid | Everyone

datatype kind = Offer | Answer | IceCandidate | ChatMessage

datatype msg =
    ErrorMsg string
  | Registered uid string
  | OnlineUsers "(uid \<times> string \<times> bool) list"
  | IncomingCall uid "string option"
  | CallEnded uid
  | WaitingPatient uid "nat option"
  | CallWaiting string "nat option"
  | CallStartedTo uid
  | CallStartedFrom uid "string option"
  | Relayed kind payload uid "nat option"
  | WaitingQueue "uid list" nat

type_synonym out = "sink \<times> msg"

subsection \<open>The waiting queue (an array)\<close>

text \<open>\<^verbatim>\<open>Array.prototype.indexOf\<close>: the first index holding the value, \<open>None\<close> for \<open>-1\<close>.\<close>

fun indexOf :: "'a list \<Rightarrow> 'a \<Rightarrow> nat option" where
  "indexOf [] x = None"
| "indexOf (y # ys) x = (if y = x then Some 0 else map_option Suc (indexOf ys x))"

text \<open>\<^verbatim>\<open>xs.splice(i, 1)\<close>: the element at index \<open>i\<close> is taken out.\<close>

definition splice1 :: "nat \<Rightarrow> 'a list \<Rightarrow> 'a list" where
  "splice1 i xs = take i xs @ drop (Suc i) xs"

text \<open>
  \<^verbatim>\<open>const i = q.indexOf(x); if (i !== -1) q.splice(i, 1);\<close> (disconnect clean-up).
\<close>

definition dropWaiting :: "uid \<Rightarrow> uid list \<Rightarrow> uid list" where
  "dropWaiting x q = (case indexOf q x of None \<Rightarrow> q | Some i \<Rightarrow> splice1 i q)"

text \<open>\<^verbatim>\<open>if (!q.includes(x)) q.push(x);\<close> (the queueing branch of \<^verbatim>\<open>callUser\<close>).\<close>

definition pushWaiting :: "uid \<Rightarrow> uid list \<Rightarrow> uid list" where
  "pushWaiting x q = (if x \<in> set q then q else q @ [x])"

text \<open>\<^verbatim>\<open>q.indexOf(x) + 1\<close> as a number.\<close>

definition queuePosition :: "uid list \<Rightarrow> uid \<Rightarrow> nat" where
  "queuePosition q x = (case indexOf q x of None \<Rightarrow> 0 | Some i \<Rightarrow> Suc i)"

subsection \<open>The Map-based server (part_001)\<close>

record user1 =
  id1 :: uid
  role1 :: string
  busy1 :: bool
  socketId1 :: sid

record state1 =
  users1 :: "(sid \<times> user1) list"
  userSockets1 :: "uid \<rightharpoonup> sid"
  activeCalls1 :: "uid \<rightharpoonup> uid"
  waitingQueue1 :: "uid list"

definition init1 :: state1 where
  "init1 = \<lparr>users1 = [], userSockets1 = Map.empty, activeCalls1 = Map.empty, waitingQueue1 = []\<rparr>"

definition getUserBySocketId :: "state1 \<Rightarrow> sid \<Rightarrow> user1 option" where
  "getUserBySocketId st s = map_of (users1 st) s"

definition getUserById :: "state1 \<Rightarrow> uid \<Rightarrow> user1 option" where
  "getUserById st userId =
     (case userSockets1 st userId of None \<Rightarrow> None | Some s \<Rightarrow> map_of (users1 st) s)"

definition getOnlineUsers1 :: "state1 \<Rightarrow> (uid \<times> string \<times> bool) list" where
  "getOnlineUsers1 st = map (\<lambda>(s, u). (id1 u, role1 u, busy1 u)) (users1 st)"

text \<open>
  \<^verbatim>\<open>setUserBusy\<close> writes the flag into the user object and stores the object under
  \<^verbatim>\<open>user.socketId\<close>. Every entry is stored under its own \<^verbatim>\<open>socketId\<close> (invariant
  \<open>wf1\<close> below), so the write in place and the \<^verbatim>\<open>set\<close> hit the same entry.
\<close>

definition setUserBusy :: "uid \<Rightarrow> bool \<Rightarrow> state1 \<Rightarrow> state1" where
  "setUserBusy userId b st =
     (case getUserById st userId of
        None \<Rightarrow> st
      | Some user \<Rightarrow> st\<lparr>users1 := AList.update (socketId1 user) (user\<lparr>busy1 := b\<rparr>) (users1 st)\<rparr>)"

definition broadcastOnlineUsers :: "state1 \<Rightarrow> out" where
  "broadcastOnlineUsers st = (Everyone, OnlineUsers (getOnlineUsers1 st))"

text \<open>The first component is the field \<^verbatim>\<open>success\<close> of the returned object.\<close>

definition startCall1 :: "uid \<Rightarrow> uid \<Rightarrow> state1 \<Rightarrow> bool \<times> state1 \<times> out list" where
  "startCall1 callerId calleeId st =
     (case getUserById st callerId of
        None \<Rightarrow> (False, st, [])
      | Some caller \<Rightarrow>
          (case getUserById st calleeId of
             None \<Rightarrow> (False, st, [])
           | Some callee \<Rightarrow>
               (let st1 = setUserBusy callerId True st;
                    st2 = setUserBusy calleeId True st1;
                    st3 = st2\<lparr>activeCalls1 := (activeCalls1 st2)(callerId \<mapsto> calleeId)\<rparr>;
                    st4 = st3\<lparr>activeCalls1 := (activeCalls1 st3)(calleeId \<mapsto> callerId)\<rparr>
                in (True, st4,
                    [(To (socketId1 callee), IncomingCall callerId (Some (role1 caller))),
                     broadcastOnlineUsers st4]))))"

definition endCall1 :: "uid \<Rightarrow> state1 \<Rightarrow> state1 \<times> out list" where
  "endCall1 userId st =
     (case activeCalls1 st userId of
        None \<Rightarrow> (st, [])
      | Some partnerId \<Rightarrow>
          if partnerId = [] then (st, [])
          else
            (let user = getUserById st userId;
                 partner = getUserById st partnerId;
                 st1 = (if user \<noteq> None then setUserBusy userId False st else st);
                 st2 = (if partner \<noteq> None then setUserBusy partnerId False st1 else st1);
                 ended = (case partner of
                            None \<Rightarrow> []
                          | Some p \<Rightarrow> [(To (socketId1 p), CallEnded userId)]);
                 st3 = st2\<lparr>activeCalls1 := (activeCalls1 st2)(userId := None)\<rparr>;
                 st4 = st3\<lparr>activeCalls1 := (activeCalls1 st3)(partnerId := None)\<rparr>;
                 waiting = (case user of
                              None \<Rightarrow> []
                            | Some u \<Rightarrow>
                                if role1 u = ''nurse'' \<and> waitingQueue1 st4 \<noteq> []
                                then [(To (socketId1 u),
                                       WaitingPatient (hd (waitingQueue1 st4))
                                         (Some (length (waitingQueue1 st4))))]
                                else [])
             in (st4, ended @ waiting @ [broadcastOnlineUsers st4])))"

definition cleanupUser :: "sid \<Rightarrow> state1 \<Rightarrow> state1 \<times> out list" where
  "cleanupUser s st =
     (case map_of (users1 st) s of
        None \<Rightarrow> (st, [])
      | Some user \<Rightarrow>
          (let (st1, ended) = (if activeCalls1 st (id1 user) \<noteq> None
                               then endCall1 (id1 user) st else (st, []));
               st2 = st1\<lparr>waitingQueue1 := dropWaiting (id1 user) (waitingQueue1 st1)\<rparr>;
               st3 = st2\<lparr>users1 := AList.delete s (users1 st2)\<rparr>;
               st4 = st3\<lparr>userSockets1 := (userSockets1 st3)(id1 user := None)\<rparr>
           in (st4, ended @ [broadcastOnlineUsers st4])))"

definition register1 :: "sid \<Rightarrow> uid \<Rightarrow> string \<Rightarrow> state1 \<Rightarrow> state1 \<times> out list" where
  "register1 s userId role st =
     (if userId = [] then (st, [(To s, ErrorMsg ''Invalid user ID'')])
      else if role \<noteq> ''nurse'' \<and> role \<noteq> ''patient''
      then (st, [(To s, ErrorMsg ''Invalid role'')])
      else
        (case userSockets1 st userId of
           Some existingSocketId \<Rightarrow>
             if existingSocketId = s then (st, [(To s, Registered userId role)])
             else (st, [(To s, ErrorMsg ''User ID already registered'')])
         | None \<Rightarrow>
             (let userData = \<lparr>id1 = userId, role1 = role, busy1 = False, socketId1 = s\<rparr>;
                  st1 = st\<lparr>users1 := AList.update s userData (users1 st)\<rparr>;
                  st2 = st1\<lparr>userSockets1 := (userSockets1 st1)(userId \<mapsto> s)\<rparr>
              in (st2, [(To s, Registered userId role), broadcastOnlineUsers st2]))))"

definition callUser1 :: "sid \<Rightarrow> uid \<Rightarrow> state1 \<Rightarrow> state1 \<times> out list" where
  "callUser1 s calleeId st =
     (case getUserBySocketId st s of
        None \<Rightarrow> (st, [(To s, ErrorMsg ''Not registered'')])
      | Some caller \<Rightarrow>
          (case getUserById st calleeId of
             None \<Rightarrow> (st, [(To s, ErrorMsg ''User not found or offline'')])
           | Some callee \<Rightarrow>
               if role1 caller = role1 callee
               then (st, [(To s, ErrorMsg ''Cannot call users with same role'')])
               else if busy1 callee then
                 (if role1 caller = ''patient'' \<and> role1 callee = ''nurse'' then
                    (if id1 caller \<notin> set (waitingQueue1 st) then
                       (let st1 = st\<lparr>waitingQueue1 := waitingQueue1 st @ [id1 caller]\<rparr>
                        in (st1,
                            [(To (socketId1 callee),
                              WaitingPatient (id1 caller) (Some (length (waitingQueue1 st1)))),
                             (To s, CallWaiting ''Nurse is busy. You have been added to the queue.''
                                      (Some (queuePosition (waitingQueue1 st1) (id1 caller))))]))
                     else
                       (st, [(To s, CallWaiting ''Nurse is busy. You have been added to the queue.''
                                      (Some (queuePosition (waitingQueue1 st) (id1 caller))))]))
                  else (st, [(To s, ErrorMsg ''User is currently busy'')]))
               else
                 (case startCall1 (id1 caller) (id1 callee) st of
                    (True, st1, sent) \<Rightarrow> (st1, sent @ [(To s, CallStartedTo calleeId)])
                  | (False, st1, sent) \<Rightarrow> (st1, sent @ [(To s, ErrorMsg ''User not found'')]))))"

definition acceptWaiting1 :: "sid \<Rightarrow> uid \<Rightarrow> state1 \<Rightarrow> state1 \<times> out list" where
  "acceptWaiting1 s patientId st =
     (case getUserBySocketId st s of
        None \<Rightarrow> (st, [(To s, ErrorMsg ''Unauthorized action'')])
      | Some nurse \<Rightarrow>
          if role1 nurse \<noteq> ''nurse'' then (st, [(To s, ErrorMsg ''Unauthorized action'')])
          else
            (case indexOf (waitingQueue1 st) patientId of
               None \<Rightarrow> (st, [(To s, ErrorMsg ''Patient not in queue'')])
             | Some queueIndex \<Rightarrow>
                 (let st1 = st\<lparr>waitingQueue1 := splice1 queueIndex (waitingQueue1 st)\<rparr>
                  in (case getUserById st1 patientId of
                        None \<Rightarrow> (st1, [(To s, ErrorMsg ''Patient offline'')])
                      | Some patient \<Rightarrow>
                          (case startCall1 (id1 nurse) patientId st1 of
                             (True, st2, sent) \<Rightarrow>
                               (st2, sent @ [(To (socketId1 patient),
                                              CallStartedFrom (id1 nurse) (Some (role1 nurse)))])
                           | (False, st2, sent) \<Rightarrow> (st2, sent))))))"

text \<open>
  The four relay handlers of part_001 differ in the event name only; the chat message also
  carries \<^verbatim>\<open>Date.now()\<close>, here the argument \<open>now\<close>. They do not touch the state.
\<close>

definition relay1 :: "kind \<Rightarrow> nat \<Rightarrow> sid \<Rightarrow> payload \<Rightarrow> uid \<Rightarrow> state1 \<Rightarrow> out list" where
  "relay1 k now s body to st =
     (case getUserBySocketId st s of
        None \<Rightarrow> []
      | Some from \<Rightarrow>
          (case getUserById st to of
             None \<Rightarrow> []
           | Some target \<Rightarrow>
               [(To (socketId1 target),
                 Relayed k body (id1 from) (if k = ChatMessage then Some now else None))]))"

text \<open>The handler of the event \<^verbatim>\<open>endCall\<close>.\<close>

definition onEndCall1 :: "sid \<Rightarrow> uid \<Rightarrow> state1 \<Rightarrow> state1 \<times> out list" where
  "onEndCall1 s to st =
     (case getUserBySocketId st s of
        None \<Rightarrow> (st, [])
      | Some from \<Rightarrow>
          if activeCalls1 st (id1 from) = Some to then endCall1 (id1 from) st else (st, []))"

definition getWaitingQueue :: "sid \<Rightarrow> state1 \<Rightarrow> out list" where
  "getWaitingQueue s st =
     (case getUserBySocketId st s of
        None \<Rightarrow> []
      | Some user \<Rightarrow>
          if role1 user \<noteq> ''nurse'' then []
          else [(To s, WaitingQueue (waitingQueue1 st) (length (waitingQueue1 st)))])"

text \<open>The events a client can send that reach the state.\<close>

datatype action =
    Register sid uid string
  | CallUser sid uid
  | AcceptWaiting sid uid
  | EndCall sid uid
  | Disconnect sid

fun step1 :: "action \<Rightarrow> state1 \<Rightarrow> state1 \<times> out list" where
  "step1 (Register s userId role) st = register1 s userId role st"
| "step1 (CallUser s calleeId) st = callUser1 s calleeId st"
| "step1 (AcceptWaiting s patientId) st = acceptWaiting1 s patientId st"
| "step1 (EndCall s to) st = onEndCall1 s to st"
| "step1 (Disconnect s) st = cleanupUser s st"

fun run1 :: "action list \<Rightarrow> state1 \<Rightarrow> state1" where
  "run1 [] st = st"
| "run1 (a # as) st = run1 as (fst (step1 a st))"

inductive reachable1 :: "state1 \<Rightarrow> bool" where
  reachable1_init: "reachable1 init1"
| reachable1_step: "reachable1 st \<Longrightarrow> reachable1 (fst (step1 a st))"

subsection \<open>The object-based server (part_000)\<close>

record user0 =
  id0 :: uid
  role0 :: string
  busy0 :: bool

record state0 =
  users0 :: "(sid \<times> user0) list"
  activeCalls0 :: "uid \<rightharpoonup> uid"
  waitingQueue0 :: "uid list"

definition init0 :: state0 where
  "init0 = \<lparr>users0 = [], activeCalls0 = Map.empty, waitingQueue0 = []\<rparr>"

text \<open>
  \<^verbatim>\<open>Object.keys(users).find((sid) => users[sid].id === userId)\<close>: the first entry, in
  insertion order, whose user has the id. \<open>findEntryByUserId\<close> gives the entry, for the
  callers that go on to read \<^verbatim>\<open>users[thatSocket]\<close>.
\<close>

definition findEntryByUserId :: "state0 \<Rightarrow> uid \<Rightarrow> (sid \<times> user0) option" where
  "findEntryByUserId st userId = find (\<lambda>(s, u). id0 u = userId) (users0 st)"

definition findSocketByUserId :: "state0 \<Rightarrow> uid \<Rightarrow> sid option" where
  "findSocketByUserId st userId = map_option fst (findEntryByUserId st userId)"

definition getOnlineUsers0 :: "state0 \<Rightarrow> (uid \<times> string \<times> bool) list" where
  "getOnlineUsers0 st = map (\<lambda>(s, u). (id0 u, role0 u, busy0 u)) (users0 st)"

text \<open>\<^verbatim>\<open>users[s].busy = b\<close> for a socket id \<open>s\<close> that is a key of \<^verbatim>\<open>users\<close>.\<close>

definition setBusy0 :: "sid \<Rightarrow> bool \<Rightarrow> state0 \<Rightarrow> state0" where
  "setBusy0 s b st = st\<lparr>users0 := AList.map_entry s (\<lambda>u. u\<lparr>busy0 := b\<rparr>) (users0 st)\<rparr>"

text \<open>
  \<^verbatim>\<open>activeCalls\<close> is a plain object (\<^verbatim>\<open>const activeCalls = {}\<close>) indexed by ids that
  clients choose, so its prototype shows through. The model keeps the own properties as a
  map and reads and writes them as the language does:
  \<^item> a read gives the own property if there is one, else the member of
    \<^verbatim>\<open>Object.prototype\<close> of that name (a function, or for \<^verbatim>\<open>__proto__\<close> the prototype
    object itself), else \<^verbatim>\<open>undefined\<close>;
  \<^item> the key \<^verbatim>\<open>__proto__\<close> is an accessor of the prototype: reading it never gives an
    own property, assigning a string to it is ignored, deleting it does nothing;
  \<^item> every other assignment creates or overwrites an own property, also under a name the
    prototype has;
  \<^item> an inherited value is truthy, is \<^verbatim>\<open>===\<close> to no string, and used as a property key
    it is converted to a string (\<^verbatim>\<open>[object Object]\<close> for the prototype object, the source
    text of a native function otherwise).
\<close>

datatype jsval = JUndefined | JStr string | JInherited string

definition objectPrototypeKeys :: "string list" where
  "objectPrototypeKeys =
     [''constructor'', ''__defineGetter__'', ''__defineSetter__'', ''hasOwnProperty'',
      ''__lookupGetter__'', ''__lookupSetter__'', ''isPrototypeOf'', ''propertyIsEnumerable'',
      ''toString'', ''valueOf'', ''__proto__'', ''toLocaleString'']"

definition objGet :: "(uid \<rightharpoonup> uid) \<Rightarrow> uid \<Rightarrow> jsval" where
  "objGet obj k =
     (if k = ''__proto__'' then JInherited k
      else case obj k of
             Some v \<Rightarrow> JStr v
           | None \<Rightarrow> if k \<in> set objectPrototypeKeys then JInherited k else JUndefined)"

definition objSet :: "uid \<Rightarrow> uid \<Rightarrow> (uid \<rightharpoonup> uid) \<Rightarrow> (uid \<rightharpoonup> uid)" where
  "objSet k v obj = (if k = ''__proto__'' then obj else obj(k \<mapsto> v))"

definition objDelete :: "uid \<Rightarrow> (uid \<rightharpoonup> uid) \<Rightarrow> (uid \<rightharpoonup> uid)" where
  "objDelete k obj = (if k = ''__proto__'' then obj else obj(k := None))"

definition truthy :: "jsval \<Rightarrow> bool" where
  "truthy v = (case v of JUndefined \<Rightarrow> False | JStr x \<Rightarrow> x \<noteq> [] | JInherited k \<Rightarrow> True)"

definition propertyKey :: "jsval \<Rightarrow> string" where
  "propertyKey v =
     (case v of
        JUndefined \<Rightarrow> ''undefined''
      | JStr x \<Rightarrow> x
      | JInherited k \<Rightarrow>
          if k = ''__proto__'' then ''[object Object]''
          else ''function '' @ (if k = ''constructor'' then ''Object'' else k)
                 @ ''() { [native code] }'')"

text \<open>
  \<^verbatim>\<open>findSocketByUserId(v)\<close> for a value read from \<^verbatim>\<open>activeCalls\<close>: the ids of the users
  are strings, so only a string finds one.
\<close>

definition findSocketByValue :: "state0 \<Rightarrow> jsval \<Rightarrow> sid option" where
  "findSocketByValue st v = (case v of JStr x \<Rightarrow> findSocketByUserId st x | _ \<Rightarrow> None)"

definition startCall0 :: "uid \<Rightarrow> uid \<Rightarrow> state0 \<Rightarrow> state0 \<times> out list" where
  "startCall0 callerId calleeId st =
     (case findSocketByUserId st callerId of
        None \<Rightarrow> (st, [])
      | Some callerSocket \<Rightarrow>
          (case findSocketByUserId st calleeId of
             None \<Rightarrow> (st, [])
           | Some calleeSocket \<Rightarrow>
               (let st1 = setBusy0 callerSocket True st;
                    st2 = setBusy0 calleeSocket True st1;
                    st3 = st2\<lparr>activeCalls0 := objSet callerId calleeId (activeCalls0 st2)\<rparr>;
                    st4 = st3\<lparr>activeCalls0 := objSet calleeId callerId (activeCalls0 st3)\<rparr>
                in (st4,
                    [(To calleeSocket, IncomingCall callerId None),
                     (Everyone, OnlineUsers (getOnlineUsers0 st4))]))))"

definition endCall0 :: "uid \<Rightarrow> state0 \<Rightarrow> state0 \<times> out list" where
  "endCall0 userId st =
     (let partnerId = objGet (activeCalls0 st) userId in
      if \<not> truthy partnerId then (st, [])
      else
        (let userSocket = findSocketByUserId st userId;
             partnerSocket = findSocketByValue st partnerId;
             st1 = (case userSocket of None \<Rightarrow> st | Some us \<Rightarrow> setBusy0 us False st);
             st2 = (case partnerSocket of None \<Rightarrow> st1 | Some ps \<Rightarrow> setBusy0 ps False st1);
             ended = (case partnerSocket of
                        None \<Rightarrow> []
                      | Some ps \<Rightarrow> [(To ps, CallEnded userId)]);
             st3 = st2\<lparr>activeCalls0 := objDelete userId (activeCalls0 st2)\<rparr>;
             st4 = st3\<lparr>activeCalls0 := objDelete (propertyKey partnerId) (activeCalls0 st3)\<rparr>;
             userRole = (case userSocket of
                           None \<Rightarrow> None
                         | Some us \<Rightarrow> map_option role0 (map_of (users0 st4) us));
             nurseId = (if userRole = Some ''nurse'' then JStr userId else partnerId);
             waiting = (if waitingQueue0 st4 \<noteq> [] \<and> truthy nurseId then
                          (case findSocketByValue st4 nurseId of
                             None \<Rightarrow> []
                           | Some nurseSocket \<Rightarrow>
                               [(To nurseSocket,
                                 WaitingPatient (hd (waitingQueue0 st4)) None)])
                        else [])
         in (st4, ended @ waiting @ [(Everyone, OnlineUsers (getOnlineUsers0 st4))])))"

definition register0 :: "sid \<Rightarrow> uid \<Rightarrow> string \<Rightarrow> state0 \<Rightarrow> state0 \<times> out list" where
  "register0 s userId role st =
     (if userId = [] \<or> (role \<noteq> ''nurse'' \<and> role \<noteq> ''patient'')
      then (st, [(To s, ErrorMsg ''Invalid registration'')])
      else if list_ex (\<lambda>(k, u). id0 u = userId) (users0 st)
      then (st, [(To s, ErrorMsg ''User ID already taken'')])
      else
        (let st1 = st\<lparr>users0 := AList.update s \<lparr>id0 = userId, role0 = role, busy0 = False\<rparr>
                                    (users0 st)\<rparr>
         in (st1, [(Everyone, OnlineUsers (getOnlineUsers0 st1))])))"

definition callUser0 :: "sid \<Rightarrow> uid \<Rightarrow> state0 \<Rightarrow> state0 \<times> out list" where
  "callUser0 s calleeId st =
     (case map_of (users0 st) s of
        None \<Rightarrow> (st, [(To s, ErrorMsg ''Not registered'')])
      | Some caller \<Rightarrow>
          (case findEntryByUserId st calleeId of
             None \<Rightarrow> (st, [(To s, ErrorMsg ''Callee offline'')])
           | Some (calleeSocket, callee) \<Rightarrow>
               if role0 caller = role0 callee
               then (st, [(To s, ErrorMsg ''Cannot call same role'')])
               else if busy0 callee then
                 (if role0 caller = ''patient'' \<and> role0 callee = ''nurse'' then
                    (if id0 caller \<notin> set (waitingQueue0 st) then
                       (st\<lparr>waitingQueue0 := waitingQueue0 st @ [id0 caller]\<rparr>,
                        [(To calleeSocket, WaitingPatient (id0 caller) None),
                         (To s, CallWaiting ''Nurse is busy, added to queue'' None)])
                     else (st, [(To s, CallWaiting ''Nurse is busy, added to queue'' None)]))
                  else (st, [(To s, ErrorMsg ''Callee is busy'')]))
               else
                 (case startCall0 (id0 caller) (id0 callee) st of
                    (st1, sent) \<Rightarrow> (st1, sent @ [(To s, CallStartedTo calleeId)]))))"

definition acceptWaiting0 :: "sid \<Rightarrow> uid \<Rightarrow> state0 \<Rightarrow> state0 \<times> out list" where
  "acceptWaiting0 s patientId st =
     (case map_of (users0 st) s of
        None \<Rightarrow> (st, [(To s, ErrorMsg ''Not authorized'')])
      | Some nurse \<Rightarrow>
          if role0 nurse \<noteq> ''nurse'' then (st, [(To s, ErrorMsg ''Not authorized'')])
          else
            (case indexOf (waitingQueue0 st) patientId of
               None \<Rightarrow> (st, [(To s, ErrorMsg ''Patient not waiting'')])
             | Some queueIndex \<Rightarrow>
                 (let st1 = st\<lparr>waitingQueue0 := splice1 queueIndex (waitingQueue0 st)\<rparr>
                  in (case findSocketByUserId st1 patientId of
                        None \<Rightarrow> (st1, [(To s, ErrorMsg ''Patient offline'')])
                      | Some patientSocket \<Rightarrow>
                          (case startCall0 (id0 nurse) patientId st1 of
                             (st2, sent) \<Rightarrow>
                               (st2, sent @ [(To patientSocket,
                                              CallStartedFrom (id0 nurse) None)]))))))"

text \<open>
  A handler that throws ends with the exception; the three negotiation handlers of part_000
  read \<^verbatim>\<open>users[socket.id].id\<close> while they build the message, after the target was found.
\<close>

datatype js_error = TypeError

definition signal0 :: "kind \<Rightarrow> sid \<Rightarrow> payload \<Rightarrow> uid \<Rightarrow> state0 \<Rightarrow> js_error + out list" where
  "signal0 k s body to st =
     (case findSocketByUserId st to of
        None \<Rightarrow> Inr []
      | Some toSocket \<Rightarrow>
          (case map_of (users0 st) s of
             None \<Rightarrow> Inl TypeError
           | Some sender \<Rightarrow> Inr [(To toSocket, Relayed k body (id0 sender) None)]))"

definition chatMessage0 :: "sid \<Rightarrow> payload \<Rightarrow> uid \<Rightarrow> state0 \<Rightarrow> js_error + out list" where
  "chatMessage0 s message to st =
     (case map_of (users0 st) s of
        None \<Rightarrow> Inr []
      | Some sender \<Rightarrow>
          if id0 sender = [] then Inr []
          else
            (case findSocketByUserId st to of
               None \<Rightarrow> Inr []
             | Some toSocket \<Rightarrow> Inr [(To toSocket, Relayed ChatMessage message (id0 sender) None)]))"

text \<open>The four relay events of part_000, by kind.\<close>

definition relay0 :: "kind \<Rightarrow> sid \<Rightarrow> payload \<Rightarrow> uid \<Rightarrow> state0 \<Rightarrow> js_error + out list" where
  "relay0 k s body to st =
     (if k = ChatMessage then chatMessage0 s body to st else signal0 k s body to st)"

definition onEndCall0 :: "sid \<Rightarrow> uid \<Rightarrow> state0 \<Rightarrow> state0 \<times> out list" where
  "onEndCall0 s to st =
     (case map_of (users0 st) s of
        None \<Rightarrow> (st, [])
      | Some sender \<Rightarrow>
          if id0 sender \<noteq> [] \<and> objGet (activeCalls0 st) (id0 sender) = JStr to
          then endCall0 (id0 sender) st else (st, []))"

definition disconnect0 :: "sid \<Rightarrow> state0 \<Rightarrow> state0 \<times> out list" where
  "disconnect0 s st =
     (case map_of (users0 st) s of
        None \<Rightarrow> (st, [])
      | Some user \<Rightarrow>
          (let (st1, ended) = endCall0 (id0 user) st;
               st2 = st1\<lparr>waitingQueue0 := dropWaiting (id0 user) (waitingQueue0 st1)\<rparr>;
               st3 = st2\<lparr>users0 := AList.delete s (users0 st2)\<rparr>
           in (st3, ended @ [(Everyone, OnlineUsers (getOnlineUsers0 st3))])))"

fun step0 :: "action \<Rightarrow> state0 \<Rightarrow> state0 \<times> out list" where
  "step0 (Register s userId role) st = register0 s userId role st"
| "step0 (CallUser s calleeId) st = callUser0 s calleeId st"
| "step0 (AcceptWaiting s patientId) st = acceptWaiting0 s patientId st"
| "step0 (EndCall s to) st = onEndCall0 s to st"
| "step0 (Disconnect s) st = disconnect0 s st"

fun run0 :: "action list \<Rightarrow> state0 \<Rightarrow> state0" where
  "run0 [] st = st"
| "run0 (a # as) st = run0 as (fst (step0 a st))"

inductive reachable0 :: "state0 \<Rightarrow> bool" where
  reachable0_init: "reachable0 init0"
| reachable0_step: "reachable0 st \<Longrightarrow> reachable0 (fst (step0 a st))"

subsection \<open>Well-formed states\<close>

text \<open>
  What every state the Map-based server reaches satisfies: an entry of \<^verbatim>\<open>users\<close> is
  stored under its own socket id, its id is not empty and \<^verbatim>\<open>userSockets\<close> leads from
  the id back to the socket; partner ids and queued ids are not empty; the queue holds no id
  twice.
\<close>

definition wf1 :: "state1 \<Rightarrow> bool" where
  "wf1 st \<longleftrightarrow>
     (\<forall>s u. map_of (users1 st) s = Some u \<longrightarrow>
        socketId1 u = s \<and> id1 u \<noteq> [] \<and> userSockets1 st (id1 u) = Some s)
     \<and> (\<forall>a b. activeCalls1 st a = Some b \<longrightarrow> b \<noteq> [])
     \<and> distinct (waitingQueue1 st)
     \<and> [] \<notin> set (waitingQueue1 st)"

text \<open>
  For the object-based server: \<^verbatim>\<open>users\<close> has each key once (it is an object), no two
  entries share a user id, no id is empty, and the queue holds no id twice.
\<close>

definition wf0 :: "state0 \<Rightarrow> bool" where
  "wf0 st \<longleftrightarrow>
     distinct (map fst (users0 st))
     \<and> (\<forall>s t u v. map_of (users0 st) s = Some u \<and> map_of (users0 st) t = Some v
            \<and> id0 u = id0 v \<longrightarrow> s = t)
     \<and> (\<forall>s u. map_of (users0 st) s = Some u \<longrightarrow> id0 u \<noteq> [])
     \<and> distinct (waitingQueue0 st)
     \<and> [] \<notin> set (waitingQueue0 st)"

subsection \<open>The admission queue of the specification\<close>

text \<open>
  The operations the specification names for the queue, \<open>enqueue\<close> and \<open>remove\<close>, as the
  two code fragments that implement them, and what the specification calls insertion
  order: the ids in the order of their first \<open>enqueue\<close>.
\<close>

datatype qop = Enqueue uid | Remove uid

fun qstep :: "qop \<Rightarrow> uid list \<Rightarrow> uid list" where
  "qstep (Enqueue x) q = pushWaiting x q"
| "qstep (Remove x) q = dropWaiting x q"

fun qrun :: "qop list \<Rightarrow> uid list \<Rightarrow> uid list" where
  "qrun [] q = q"
| "qrun (opn # ops) q = qrun ops (qstep opn q)"

fun enqueued :: "qop list \<Rightarrow> uid list" where
  "enqueued [] = []"
| "enqueued (Enqueue x # ops) = x # enqueued ops"
| "enqueued (Remove x # ops) = enqueued ops"

text \<open>
  What the operations do to the content of the queue. \<open>waiting ops S\<close> is the set of ids
  that wait after \<open>ops\<close> when the ids of \<open>S\<close> waited before; \<open>takenOut ops S\<close> is the set
  of ids that some \<open>remove\<close> of \<open>ops\<close> found waiting, that is, the ids that were admitted or
  dropped. A \<open>remove\<close> of an id that does not wait takes nothing out.
\<close>

fun waiting :: "qop list \<Rightarrow> uid set \<Rightarrow> uid set" where
  "waiting [] S = S"
| "waiting (Enqueue x # ops) S = waiting ops (insert x S)"
| "waiting (Remove x # ops) S = waiting ops (S - {x})"

fun takenOut :: "qop list \<Rightarrow> uid set \<Rightarrow> uid set" where
  "takenOut [] S = {}"
| "takenOut (Enqueue x # ops) S = takenOut ops (insert x S)"
| "takenOut (Remove x # ops) S = (if x \<in> S then {x} else {}) \<union> takenOut ops (S - {x})"

fun firstOccurrences :: "'a list \<Rightarrow> 'a list" where
  "firstOccurrences [] = []"
| "firstOccurrences (x # xs) = x # firstOccurrences (filter (\<lambda>y. y \<noteq> x) xs)"

text \<open>
  The queue operations a client event performs, read off the handlers: the queueing branch
  of \<^verbatim>\<open>callUser\<close> enqueues the caller, \<^verbatim>\<open>acceptWaiting\<close> by a nurse removes the id it
  names (the admission), the disconnect of a registered socket removes its user's id, and
  nothing else touches the queue. \<open>traceOps\<close> collects them along a run.
\<close>

fun queueOps1 :: "action \<Rightarrow> state1 \<Rightarrow> qop list" where
  "queueOps1 (CallUser s calleeId) st =
     (case getUserBySocketId st s of
        None \<Rightarrow> []
      | Some caller \<Rightarrow>
          (case getUserById st calleeId of
             None \<Rightarrow> []
           | Some callee \<Rightarrow>
               if busy1 callee \<and> role1 caller = ''patient'' \<and> role1 callee = ''nurse''
               then [Enqueue (id1 caller)] else []))"
| "queueOps1 (AcceptWaiting s patientId) st =
     (case getUserBySocketId st s of
        None \<Rightarrow> []
      | Some nurse \<Rightarrow> if role1 nurse = ''nurse'' then [Remove patientId] else [])"
| "queueOps1 (Disconnect s) st =
     (case getUserBySocketId st s of None \<Rightarrow> [] | Some user \<Rightarrow> [Remove (id1 user)])"
| "queueOps1 (Register s userId role) st = []"
| "queueOps1 (EndCall s to) st = []"

fun traceOps1 :: "action list \<Rightarrow> state1 \<Rightarrow> qop list" where
  "traceOps1 [] st = []"
| "traceOps1 (a # as) st = queueOps1 a st @ traceOps1 as (fst (step1 a st))"

fun queueOps0 :: "action \<Rightarrow> state0 \<Rightarrow> qop list" where
  "queueOps0 (CallUser s calleeId) st =
     (case map_of (users0 st) s of
        None \<Rightarrow> []
      | Some caller \<Rightarrow>
          (case findEntryByUserId st calleeId of
             None \<Rightarrow> []
           | Some (calleeSocket, callee) \<Rightarrow>
               if busy0 callee \<and> role0 caller = ''patient'' \<and> role0 callee = ''nurse''
               then [Enqueue (id0 caller)] else []))"
| "queueOps0 (AcceptWaiting s patientId) st =
     (case map_of (users0 st) s of
        None \<Rightarrow> []
      | Some nurse \<Rightarrow> if role0 nurse = ''nurse'' then [Remove patientId] else [])"
| "queueOps0 (Disconnect s) st =
     (case map_of (users0 st) s of None \<Rightarrow> [] | Some user \<Rightarrow> [Remove (id0 user)])"
| "queueOps0 (Register s userId role) st = []"
| "queueOps0 (EndCall s to) st = []"

fun traceOps0 :: "action list \<Rightarrow> state0 \<Rightarrow> qop list" where
  "traceOps0 [] st = []"
| "traceOps0 (a # as) st = queueOps0 a st @ traceOps0 as (fst (step0 a st))"

subsection \<open>Abbreviations for the Map-based server\<close>

text \<open>
  The socket under which the user of an id is stored, and the states that \<^verbatim>\<open>startCall\<close>
  and \<^verbatim>\<open>endCall\<close> produce when they go through.
\<close>

definition sockOf :: "state1 \<Rightarrow> uid \<Rightarrow> sid option" where
  "sockOf st u = map_option socketId1 (getUserById st u)"

definition paired1 :: "uid \<Rightarrow> uid \<Rightarrow> state1 \<Rightarrow> state1" where
  "paired1 a b st =
     (setUserBusy b True (setUserBusy a True st))
       \<lparr>activeCalls1 := (activeCalls1 st)(a \<mapsto> b, b \<mapsto> a)\<rparr>"

definition unpaired1 :: "uid \<Rightarrow> uid \<Rightarrow> state1 \<Rightarrow> state1" where
  "unpaired1 a p st =
     (setUserBusy p False (setUserBusy a False st))
       \<lparr>activeCalls1 := (activeCalls1 st)(a := None, p := None)\<rparr>"

subsection \<open>Abbreviations for the object-based server\<close>

text \<open>
  The write \<^verbatim>\<open>users[findSocketByUserId(id)].busy = b\<close> guarded by the lookup, and the
  state that \<^verbatim>\<open>startCall\<close> produces when it goes through.
\<close>

definition markBusy0 :: "uid \<Rightarrow> bool \<Rightarrow> state0 \<Rightarrow> state0" where
  "markBusy0 userId b st =
     (case findSocketByUserId st userId of None \<Rightarrow> st | Some s \<Rightarrow> setBusy0 s b st)"

definition paired0 :: "uid \<Rightarrow> uid \<Rightarrow> state0 \<Rightarrow> state0" where
  "paired0 a b st =
     (markBusy0 b True (markBusy0 a True st))
       \<lparr>activeCalls0 := objSet b a (objSet a b (activeCalls0 st))\<rparr>"

section \<open>Properties\<close>

subsection \<open>The queue fragments\<close>


lemma indexOf_None_iff: "indexOf xs x = None \<longleftrightarrow> x \<notin> set xs"
  by (induction xs) auto

lemma splice1_indexOf: "indexOf xs x = Some i \<Longrightarrow> splice1 i xs = remove1 x xs"
  by (induction xs arbitrary: i) (auto simp: splice1_def split: if_splits)

lemma dropWaiting_remove1: "dropWaiting x q = remove1 x q"
proof (cases "indexOf q x")
  case None
  then have "x \<notin> set q" by (simp add: indexOf_None_iff)
  with None show ?thesis by (simp add: dropWaiting_def remove1_idem)
next
  case (Some i)
  then show ?thesis by (simp add: dropWaiting_def splice1_indexOf)
qed

subsection \<open>Invariant of the Map-based server\<close>

lemma setUserBusy_frame [simp]:
  "userSockets1 (setUserBusy u b st) = userSockets1 st"
  "activeCalls1 (setUserBusy u b st) = activeCalls1 st"
  "waitingQueue1 (setUserBusy u b st) = waitingQueue1 st"
  by (simp_all add: setUserBusy_def split: option.splits)

lemma map_of_setUserBusy:
  "map_of (users1 (setUserBusy u b st)) =
     (case getUserById st u of
        None \<Rightarrow> map_of (users1 st)
      | Some usr \<Rightarrow> (map_of (users1 st))(socketId1 usr \<mapsto> usr\<lparr>busy1 := b\<rparr>))"
  by (simp add: setUserBusy_def update_conv' split: option.splits)

lemma wf1_D:
  "wf1 st \<Longrightarrow> map_of (users1 st) s = Some u \<Longrightarrow>
   socketId1 u = s \<and> id1 u \<noteq> [] \<and> userSockets1 st (id1 u) = Some s"
  by (simp add: wf1_def)

lemma getUserById_SomeD:
  "wf1 st \<Longrightarrow> getUserById st u = Some x \<Longrightarrow>
   map_of (users1 st) (socketId1 x) = Some x \<and> userSockets1 st u = Some (socketId1 x)
   \<and> id1 x \<noteq> [] \<and> userSockets1 st (id1 x) = Some (socketId1 x)"
  by (auto simp: getUserById_def dest: wf1_D split: option.splits)

lemma getUserById_own: "wf1 st \<Longrightarrow> map_of (users1 st) s = Some u \<Longrightarrow> getUserById st (id1 u) = Some u"
  by (auto simp: getUserById_def dest: wf1_D)

lemma wf1_setUserBusy: "wf1 st \<Longrightarrow> wf1 (setUserBusy u b st)"
proof (cases "getUserById st u")
  case None
  then show "wf1 st \<Longrightarrow> wf1 (setUserBusy u b st)" by (simp add: setUserBusy_def)
next
  case (Some x)
  assume w: "wf1 st"
  note d = getUserById_SomeD [OF w Some]
  show "wf1 (setUserBusy u b st)"
    unfolding wf1_def
    using w d by (auto simp: map_of_setUserBusy Some wf1_def)
qed

lemma getUserById_setUserBusy:
  assumes w: "wf1 st"
  shows "getUserById (setUserBusy u b st) v =
     (case getUserById st v of
        None \<Rightarrow> None
      | Some x \<Rightarrow> if sockOf st u = Some (socketId1 x) then Some (x\<lparr>busy1 := b\<rparr>) else Some x)"
proof (cases "getUserById st u")
  case None
  then show ?thesis by (simp add: setUserBusy_def sockOf_def split: option.splits)
next
  case (Some x)
  note d = getUserById_SomeD [OF w Some]
  have so: "sockOf st u = Some (socketId1 x)" by (simp add: sockOf_def Some)
  show ?thesis
  proof (cases "userSockets1 st v")
    case None
    then show ?thesis by (simp add: getUserById_def)
  next
    case t: (Some t)
    have l: "getUserById (setUserBusy u b st) v
               = ((map_of (users1 st))(socketId1 x \<mapsto> x\<lparr>busy1 := b\<rparr>)) t"
      unfolding getUserById_def [of _ v] map_of_setUserBusy Some
      by (simp add: t)
    have r: "getUserById st v = map_of (users1 st) t"
      unfolding getUserById_def by (simp add: t)
    show ?thesis
    proof (cases "t = socketId1 x")
      case True
      with d have "map_of (users1 st) t = Some x" by simp
      then show ?thesis unfolding l r so by (simp add: True)
    next
      case False
      show ?thesis
      proof (cases "map_of (users1 st) t")
        case None
        then show ?thesis unfolding l r so using False by simp
      next
        case y: (Some y)
        from wf1_D [OF w y] have "socketId1 y = t" by simp
        with False have "socketId1 x \<noteq> socketId1 y" by simp
        then show ?thesis unfolding l r so using False y by simp
      qed
    qed
  qed
qed

lemma sockOf_setUserBusy: "wf1 st \<Longrightarrow> sockOf (setUserBusy u b st) v = sockOf st v"
  by (simp add: sockOf_def [of _ v] getUserById_setUserBusy split: option.splits)

lemma getUserById_activeCalls_upd [simp]:
  "getUserById (st\<lparr>activeCalls1 := m\<rparr>) = getUserById st"
  by (auto simp: getUserById_def fun_eq_iff split: option.splits)

lemma getUserById_queue_upd [simp]:
  "getUserById (st\<lparr>waitingQueue1 := q\<rparr>) = getUserById st"
  by (auto simp: getUserById_def fun_eq_iff split: option.splits)

lemma sockOf_upd [simp]:
  "sockOf (st\<lparr>activeCalls1 := m\<rparr>) = sockOf st"
  "sockOf (st\<lparr>waitingQueue1 := q\<rparr>) = sockOf st"
  by (simp_all add: sockOf_def fun_eq_iff)

lemma wf1_activeCalls_upd:
  "wf1 st \<Longrightarrow> (\<forall>a b. m a = Some b \<longrightarrow> b \<noteq> []) \<Longrightarrow> wf1 (st\<lparr>activeCalls1 := m\<rparr>)"
  by (simp add: wf1_def)

lemma wf1_activeCalls_nonempty: "wf1 st \<Longrightarrow> activeCalls1 st a = Some b \<Longrightarrow> b \<noteq> []"
  by (auto simp: wf1_def)

lemma startCall1_found:
  "getUserById st a = Some ua \<Longrightarrow> getUserById st b = Some ub \<Longrightarrow>
   startCall1 a b st =
     (True, paired1 a b st,
      [(To (socketId1 ub), IncomingCall a (Some (role1 ua))), broadcastOnlineUsers (paired1 a b st)])"
  by (simp add: startCall1_def paired1_def Let_def)

lemma startCall1_missing:
  "getUserById st a = None \<or> getUserById st b = None \<Longrightarrow> startCall1 a b st = (False, st, [])"
  by (auto simp: startCall1_def split: option.splits)

lemma wf1_paired1:
  assumes w: "wf1 st" and a: "a \<noteq> []" and b: "b \<noteq> []"
  shows "wf1 (paired1 a b st)"
proof -
  have "wf1 (setUserBusy b True (setUserBusy a True st))"
    by (intro wf1_setUserBusy w)
  moreover have "\<forall>x y. ((activeCalls1 st)(a \<mapsto> b, b \<mapsto> a)) x = Some y \<longrightarrow> y \<noteq> []"
    using a b wf1_activeCalls_nonempty [OF w] by auto
  ultimately show ?thesis
    unfolding paired1_def by (rule wf1_activeCalls_upd)
qed

lemma paired1_frame [simp]:
  "userSockets1 (paired1 a b st) = userSockets1 st"
  "waitingQueue1 (paired1 a b st) = waitingQueue1 st"
  "activeCalls1 (paired1 a b st) = (activeCalls1 st)(a \<mapsto> b, b \<mapsto> a)"
  by (simp_all add: paired1_def)

lemma getUserById_paired1:
  "wf1 st \<Longrightarrow>
   getUserById (paired1 a b st) v =
     (case getUserById st v of
        None \<Rightarrow> None
      | Some x \<Rightarrow> if sockOf st a = Some (socketId1 x) \<or> sockOf st b = Some (socketId1 x)
                  then Some (x\<lparr>busy1 := True\<rparr>) else Some x)"
  by (auto simp: paired1_def getUserById_setUserBusy wf1_setUserBusy sockOf_setUserBusy
        split: option.splits)

lemma setUserBusy_absent: "getUserById st u = None \<Longrightarrow> setUserBusy u b st = st"
  by (simp add: setUserBusy_def)

lemma getUserById_None_setUserBusy:
  "wf1 st \<Longrightarrow> getUserById st v = None \<Longrightarrow> getUserById (setUserBusy u b st) v = None"
  by (simp add: getUserById_setUserBusy)

lemma endCall1_state:
  assumes w: "wf1 st" and a: "activeCalls1 st a = Some p"
  shows "fst (endCall1 a st) = unpaired1 a p st"
proof -
  from w a have p: "p \<noteq> []" by (auto simp: wf1_def)
  have 1: "(if getUserById st a \<noteq> None then setUserBusy a False st else st) = setUserBusy a False st"
    by (auto simp: setUserBusy_absent)
  have 2: "(if getUserById st p \<noteq> None then setUserBusy p False (setUserBusy a False st)
            else setUserBusy a False st) = setUserBusy p False (setUserBusy a False st)"
    using w by (auto simp: setUserBusy_absent getUserById_None_setUserBusy)
  have "fst (endCall1 a st) =
     ((if getUserById st p \<noteq> None
       then setUserBusy p False (if getUserById st a \<noteq> None then setUserBusy a False st else st)
       else (if getUserById st a \<noteq> None then setUserBusy a False st else st))
        \<lparr>activeCalls1 := (activeCalls1 st)(a := None, p := None)\<rparr>)"
    using a p by (simp add: endCall1_def Let_def del: not_None_eq)
  also have "\<dots> = unpaired1 a p st"
    unfolding 1 2 unpaired1_def ..
  finally show ?thesis .
qed

lemma endCall1_idle:
  "activeCalls1 st a = None \<Longrightarrow> endCall1 a st = (st, [])"
  by (simp add: endCall1_def)

lemma endCall1_notifies:
  "wf1 st \<Longrightarrow> activeCalls1 st a = Some p \<Longrightarrow> getUserById st p = Some pu \<Longrightarrow>
   (To (socketId1 pu), CallEnded a) \<in> set (snd (endCall1 a st))"
  by (auto simp: endCall1_def Let_def wf1_def)

lemma unpaired1_frame [simp]:
  "userSockets1 (unpaired1 a p st) = userSockets1 st"
  "waitingQueue1 (unpaired1 a p st) = waitingQueue1 st"
  "activeCalls1 (unpaired1 a p st) = (activeCalls1 st)(a := None, p := None)"
  by (simp_all add: unpaired1_def)

lemma wf1_unpaired1:
  assumes w: "wf1 st"
  shows "wf1 (unpaired1 a p st)"
proof -
  have "wf1 (setUserBusy p False (setUserBusy a False st))"
    by (intro wf1_setUserBusy w)
  moreover have "\<forall>x y. ((activeCalls1 st)(a := None, p := None)) x = Some y \<longrightarrow> y \<noteq> []"
    using wf1_activeCalls_nonempty [OF w] by auto
  ultimately show ?thesis
    unfolding unpaired1_def by (rule wf1_activeCalls_upd)
qed

lemma getUserById_unpaired1:
  "wf1 st \<Longrightarrow>
   getUserById (unpaired1 a p st) v =
     (case getUserById st v of
        None \<Rightarrow> None
      | Some x \<Rightarrow> if sockOf st a = Some (socketId1 x) \<or> sockOf st p = Some (socketId1 x)
                  then Some (x\<lparr>busy1 := False\<rparr>) else Some x)"
  by (auto simp: unpaired1_def getUserById_setUserBusy wf1_setUserBusy sockOf_setUserBusy
        split: option.splits)





lemma wf1_queueD: "wf1 st \<Longrightarrow> distinct (waitingQueue1 st) \<and> [] \<notin> set (waitingQueue1 st)"
  by (simp add: wf1_def)








lemma reachable1_run1: "reachable1 st \<Longrightarrow> reachable1 (run1 as st)"
  by (induction as arbitrary: st) (simp_all add: reachable1_step)

subsection \<open>Starting and ending a call, Map-based server\<close>

lemma sockOf_paired1: "wf1 st \<Longrightarrow> sockOf (paired1 a b st) v = sockOf st v"
  by (simp add: paired1_def sockOf_setUserBusy wf1_setUserBusy)

lemma sockOf_unpaired1: "wf1 st \<Longrightarrow> sockOf (unpaired1 a b st) v = sockOf st v"
  by (simp add: unpaired1_def sockOf_setUserBusy wf1_setUserBusy)

text \<open>What a started call looks like, and what ending it does.\<close>

lemma paired1_then_endCall1:
  assumes w: "wf1 st"
    and ua: "getUserById st a = Some ua" and ub: "getUserById st b = Some ub"
    and ne: "a \<noteq> []" "b \<noteq> []" and ab: "a \<noteq> b"
  shows "getUserById (paired1 a b st) a = Some (ua\<lparr>busy1 := True\<rparr>)"
    and "getUserById (paired1 a b st) b = Some (ub\<lparr>busy1 := True\<rparr>)"
    and "activeCalls1 (paired1 a b st) a = Some b" and "activeCalls1 (paired1 a b st) b = Some a"
    and "(To (socketId1 ub), CallEnded a) \<in> set (snd (endCall1 a (paired1 a b st)))"
    and "(To (socketId1 ua), CallEnded b) \<in> set (snd (endCall1 b (paired1 a b st)))"
    and "getUserById (fst (endCall1 a (paired1 a b st))) a = Some (ua\<lparr>busy1 := False\<rparr>)"
    and "getUserById (fst (endCall1 a (paired1 a b st))) b = Some (ub\<lparr>busy1 := False\<rparr>)"
    and "getUserById (fst (endCall1 b (paired1 a b st))) a = Some (ua\<lparr>busy1 := False\<rparr>)"
    and "getUserById (fst (endCall1 b (paired1 a b st))) b = Some (ub\<lparr>busy1 := False\<rparr>)"
    and "activeCalls1 (fst (endCall1 a (paired1 a b st))) a = None"
    and "activeCalls1 (fst (endCall1 a (paired1 a b st))) b = None"
    and "activeCalls1 (fst (endCall1 b (paired1 a b st))) a = None"
    and "activeCalls1 (fst (endCall1 b (paired1 a b st))) b = None"
proof -
  let ?st' = "paired1 a b st"
  have w': "wf1 ?st'" by (rule wf1_paired1 [OF w ne])
  have sa: "sockOf st a = Some (socketId1 ua)" and sb: "sockOf st b = Some (socketId1 ub)"
    by (simp_all add: sockOf_def ua ub)
  show ga: "getUserById ?st' a = Some (ua\<lparr>busy1 := True\<rparr>)"
    by (simp add: getUserById_paired1 [OF w] ua sa)
  show gb: "getUserById ?st' b = Some (ub\<lparr>busy1 := True\<rparr>)"
    by (simp add: getUserById_paired1 [OF w] ub sb)
  show ca: "activeCalls1 ?st' a = Some b" and cb: "activeCalls1 ?st' b = Some a"
    using ab by simp_all
  have sa': "sockOf ?st' a = Some (socketId1 ua)" and sb': "sockOf ?st' b = Some (socketId1 ub)"
    by (simp_all add: sockOf_def ga gb)
  show "(To (socketId1 ub), CallEnded a) \<in> set (snd (endCall1 a ?st'))"
    using endCall1_notifies [OF w' ca gb] by simp
  show "(To (socketId1 ua), CallEnded b) \<in> set (snd (endCall1 b ?st'))"
    using endCall1_notifies [OF w' cb ga] by simp
  note ea = endCall1_state [OF w' ca] and eb = endCall1_state [OF w' cb]
  show "getUserById (fst (endCall1 a ?st')) a = Some (ua\<lparr>busy1 := False\<rparr>)"
    unfolding ea by (simp add: getUserById_unpaired1 [OF w'] ga sa')
  show "getUserById (fst (endCall1 a ?st')) b = Some (ub\<lparr>busy1 := False\<rparr>)"
    unfolding ea by (simp add: getUserById_unpaired1 [OF w'] gb sb')
  show "getUserById (fst (endCall1 b ?st')) a = Some (ua\<lparr>busy1 := False\<rparr>)"
    unfolding eb by (simp add: getUserById_unpaired1 [OF w'] ga sa')
  show "getUserById (fst (endCall1 b ?st')) b = Some (ub\<lparr>busy1 := False\<rparr>)"
    unfolding eb by (simp add: getUserById_unpaired1 [OF w'] gb sb')
  show "activeCalls1 (fst (endCall1 a ?st')) a = None" "activeCalls1 (fst (endCall1 a ?st')) b = None"
    unfolding ea by simp_all
  show "activeCalls1 (fst (endCall1 b ?st')) a = None" "activeCalls1 (fst (endCall1 b ?st')) b = None"
    unfolding eb by simp_all
qed

lemma callUser1_started:
  assumes w: "wf1 st"
    and started: "(To s, CallStartedTo calleeId) \<in> set (snd (callUser1 s calleeId st))"
  shows "\<exists>caller callee. getUserBySocketId st s = Some caller
           \<and> getUserById st calleeId = Some callee
           \<and> getUserById st (id1 caller) = Some caller
           \<and> getUserById st (id1 callee) = Some callee
           \<and> id1 caller \<noteq> [] \<and> id1 callee \<noteq> [] \<and> id1 caller \<noteq> id1 callee
           \<and> socketId1 caller = s
           \<and> role1 caller \<noteq> role1 callee \<and> \<not> busy1 callee
           \<and> fst (callUser1 s calleeId st) = paired1 (id1 caller) (id1 callee) st"
proof (cases "getUserBySocketId st s")
  case None
  with started show ?thesis by (simp add: callUser1_def)
next
  case c: (Some caller)
  show ?thesis
  proof (cases "getUserById st calleeId")
    case None
    with started c show ?thesis by (simp add: callUser1_def)
  next
    case d: (Some callee)
    have ca: "getUserById st (id1 caller) = Some caller" "id1 caller \<noteq> []" "socketId1 caller = s"
      using c wf1_D [OF w, of s caller] getUserById_own [OF w, of s caller]
      by (simp_all add: getUserBySocketId_def)
    have cb: "getUserById st (id1 callee) = Some callee" "id1 callee \<noteq> []"
      using getUserById_SomeD [OF w d] getUserById_own [OF w, of "socketId1 callee" callee]
      by simp_all
    note f = startCall1_found [OF ca(1) cb(1)]
    have r: "role1 caller \<noteq> role1 callee \<and> \<not> busy1 callee"
      using started c d by (auto simp: callUser1_def Let_def split: if_splits)
    then have "caller \<noteq> callee" by auto
    with ca(1) cb(1) have ne: "id1 caller \<noteq> id1 callee" by auto
    have "fst (callUser1 s calleeId st) = paired1 (id1 caller) (id1 callee) st"
      using c d r by (simp add: callUser1_def f)
    with c d ca cb r ne show ?thesis by simp
  qed
qed

subsection \<open>Invariant of the object-based server\<close>

lemma find_in_set: "find P xs = Some x \<Longrightarrow> x \<in> set xs \<and> P x"
  by (induction xs) (auto split: if_splits)


lemma find_map_entry:
  assumes d: "distinct (map fst xs)" and p: "\<And>u. P (g u) = P u"
  shows "find (\<lambda>(s, u). P u) (AList.map_entry k g xs)
           = map_option (\<lambda>(t, u). (t, if t = k then g u else u)) (find (\<lambda>(s, u). P u) xs)"
  using d
proof (induction xs)
  case Nil
  then show ?case by simp
next
  case (Cons e xs)
  obtain t u where e: "e = (t, u)" by (cases e)
  show ?case
  proof (cases "t = k")
    case True
    show ?thesis
    proof (cases "P u")
      case True
      with \<open>t = k\<close> show ?thesis by (simp add: e p)
    next
      case False
      have "map_option (\<lambda>(t, u). (t, if t = k then g u else u)) (find (\<lambda>(s, u). P u) xs)
              = find (\<lambda>(s, u). P u) xs"
      proof (cases "find (\<lambda>(s, u). P u) xs")
        case None
        then show ?thesis by simp
      next
        case (Some y)
        from find_in_set [OF Some] have "y \<in> set xs" by simp
        with Cons.prems \<open>t = k\<close> have "fst y \<noteq> k" by (auto simp: e)
        with Some show ?thesis by (cases y) simp
      qed
      with False \<open>t = k\<close> show ?thesis by (simp add: e p)
    qed
  next
    case False
    with Cons show ?thesis by (simp add: e)
  qed
qed

lemma wf0_keys: "wf0 st \<Longrightarrow> distinct (map fst (users0 st))"
  by (simp add: wf0_def)




lemma setBusy0_frame [simp]:
  "activeCalls0 (setBusy0 s b st) = activeCalls0 st"
  "waitingQueue0 (setBusy0 s b st) = waitingQueue0 st"
  by (simp_all add: setBusy0_def)

lemma markBusy0_frame [simp]:
  "activeCalls0 (markBusy0 u b st) = activeCalls0 st"
  "waitingQueue0 (markBusy0 u b st) = waitingQueue0 st"
  by (simp_all add: markBusy0_def split: option.splits)

lemma map_of_setBusy0:
  "map_of (users0 (setBusy0 s b st)) t =
     (if t = s then map_option (\<lambda>u. u\<lparr>busy0 := b\<rparr>) (map_of (users0 st) s)
      else map_of (users0 st) t)"
  by (simp add: setBusy0_def map_of_map_entry split: option.splits)

lemma findEntryByUserId_setBusy0:
  "wf0 st \<Longrightarrow>
   findEntryByUserId (setBusy0 s b st) v =
     map_option (\<lambda>(t, u). (t, if t = s then u\<lparr>busy0 := b\<rparr> else u)) (findEntryByUserId st v)"
  unfolding findEntryByUserId_def setBusy0_def
  using find_map_entry [of "users0 st" "\<lambda>u. id0 u = v" "\<lambda>u. u\<lparr>busy0 := b\<rparr>" s]
  by (simp add: wf0_keys)

lemma map_of_setBusy0_SomeD:
  "map_of (users0 (setBusy0 s b st)) t = Some u' \<Longrightarrow>
   \<exists>u. map_of (users0 st) t = Some u \<and> id0 u' = id0 u \<and> role0 u' = role0 u"
  by (auto simp: map_of_setBusy0 split: if_splits)

lemma wf0_users_upd:
  assumes w: "wf0 st"
    and d: "distinct (map fst xs)"
    and m: "\<And>t u'. map_of xs t = Some u' \<Longrightarrow> \<exists>u. map_of (users0 st) t = Some u \<and> id0 u' = id0 u"
  shows "wf0 (st\<lparr>users0 := xs\<rparr>)"
proof -
  have inj: "s = t" if "map_of xs s = Some u" "map_of xs t = Some v" "id0 u = id0 v" for s t u v
  proof -
    from m [OF that(1)] obtain u0 where u0: "map_of (users0 st) s = Some u0" "id0 u = id0 u0" by blast
    from m [OF that(2)] obtain v0 where v0: "map_of (users0 st) t = Some v0" "id0 v = id0 v0" by blast
    from w u0 v0 that(3) show ?thesis unfolding wf0_def by metis
  qed
  have ne: "id0 u \<noteq> []" if "map_of xs s = Some u" for s u
  proof -
    from m [OF that] obtain u0 where u0: "map_of (users0 st) s = Some u0" "id0 u = id0 u0" by blast
    with w show ?thesis unfolding wf0_def by metis
  qed
  show ?thesis
    unfolding wf0_def using w d inj ne by (auto simp: wf0_def)
qed

lemma wf0_setBusy0: "wf0 st \<Longrightarrow> wf0 (setBusy0 s b st)"
  using wf0_users_upd [of st "AList.map_entry s (\<lambda>u. u\<lparr>busy0 := b\<rparr>) (users0 st)"]
    map_of_setBusy0_SomeD [of s b st]
  by (simp add: setBusy0_def distinct_map_entry wf0_keys) blast

lemma wf0_markBusy0: "wf0 st \<Longrightarrow> wf0 (markBusy0 u b st)"
  by (simp add: markBusy0_def wf0_setBusy0 split: option.splits)

lemma findEntryByUserId_markBusy0:
  assumes w: "wf0 st"
  shows "findEntryByUserId (markBusy0 u b st) v =
     map_option (\<lambda>(t, x). (t, if findSocketByUserId st u = Some t then x\<lparr>busy0 := b\<rparr> else x))
       (findEntryByUserId st v)"
proof (cases "findSocketByUserId st u")
  case None
  then show ?thesis
    by (cases "findEntryByUserId st v") (auto simp: markBusy0_def)
next
  case (Some s)
  show ?thesis
    by (cases "findEntryByUserId st v")
       (auto simp: markBusy0_def Some findEntryByUserId_setBusy0 [OF w])
qed

lemma findSocketByUserId_markBusy0:
  "wf0 st \<Longrightarrow> findSocketByUserId (markBusy0 u b st) v = findSocketByUserId st v"
  unfolding findSocketByUserId_def
  by (simp add: findEntryByUserId_markBusy0 option.map_comp comp_def split_beta)






lemma findEntryByUserId_upd [simp]:
  "findEntryByUserId (st\<lparr>activeCalls0 := m\<rparr>) = findEntryByUserId st"
  "findEntryByUserId (st\<lparr>waitingQueue0 := q\<rparr>) = findEntryByUserId st"
  by (simp_all add: findEntryByUserId_def fun_eq_iff)

lemma findSocketByUserId_upd [simp]:
  "findSocketByUserId (st\<lparr>activeCalls0 := m\<rparr>) = findSocketByUserId st"
  "findSocketByUserId (st\<lparr>waitingQueue0 := q\<rparr>) = findSocketByUserId st"
  by (simp_all add: findSocketByUserId_def fun_eq_iff)

lemma paired0_frame [simp]:
  "waitingQueue0 (paired0 a b st) = waitingQueue0 st"
  "activeCalls0 (paired0 a b st) = objSet b a (objSet a b (activeCalls0 st))"
  by (simp_all add: paired0_def)



lemma findSocketByUserId_paired0:
  "wf0 st \<Longrightarrow> findSocketByUserId (paired0 a b st) v = findSocketByUserId st v"
  by (simp add: paired0_def findSocketByUserId_markBusy0 wf0_markBusy0)


lemma startCall0_missing:
  "findSocketByUserId st a = None \<or> findSocketByUserId st b = None \<Longrightarrow> startCall0 a b st = (st, [])"
  by (auto simp: startCall0_def split: option.splits)

lemma endCall0_queue [simp]: "waitingQueue0 (fst (endCall0 a st)) = waitingQueue0 st"
  by (simp add: endCall0_def Let_def split: option.splits)











lemma reachable0_run0: "reachable0 st \<Longrightarrow> reachable0 (run0 as st)"
  by (induction as arbitrary: st) (simp_all add: reachable0_step)

subsection \<open>A started call\<close>

text \<open>
  Claim C1 does not hold of either server: a \<^verbatim>\<open>callUser\<close> answered with \<open>callStarted\<close> can
  leave the requested callee without a binding, and then ending the call for that id clears
  nothing.

  Map-based server. \<^verbatim>\<open>register\<close> on a socket that is already registered stores the new
  user under the socket and the new id in \<^verbatim>\<open>userSockets\<close>, and leaves the old id in
  \<^verbatim>\<open>userSockets\<close> (\<^verbatim>\<open>cleanupUser\<close> does delete its id). After nurse \<open>n1\<close> on socket \<open>s1\<close>
  and a socket \<open>s3\<close> registered first as patient \<open>p1\<close> and then as patient \<open>p9\<close>,
  \<^verbatim>\<open>callUser\<close> of \<open>p1\<close> by \<open>s1\<close> finds the user \<open>p9\<close>, starts the call with
  \<^verbatim>\<open>callee.id\<close> and answers \<open>callStarted\<close> to \<open>p1\<close>: \<open>n1\<close> is bound to \<open>p9\<close>, \<open>p1\<close> has
  no binding, \<^verbatim>\<open>endCall\<close> of \<open>p1\<close> changes and sends nothing, and the \<^verbatim>\<open>endCall\<close> event
  from \<open>s1\<close> naming \<open>p1\<close> is ignored.

  Object-based server. \<^verbatim>\<open>activeCalls\<close> is a plain object, and the write
  \<^verbatim>\<open>activeCalls['__proto__'] = callerId\<close> sets no property. After nurse \<open>__proto__\<close> on
  \<open>s1\<close> and patient \<open>p0\<close> on \<open>s2\<close>, \<^verbatim>\<open>callUser\<close> of \<open>__proto__\<close> by \<open>s2\<close> is answered
  with \<open>callStarted\<close> and both are busy, but the read \<^verbatim>\<open>activeCalls['__proto__']\<close> gives
  the prototype object, not \<open>p0\<close>: \<^verbatim>\<open>endCall\<close> of \<open>__proto__\<close> finds no socket for that
  partner, sends \<open>p0\<close> no \<open>callEnded\<close>, leaves \<open>p0\<close> busy and bound, and the \<^verbatim>\<open>endCall\<close>
  event from \<open>s1\<close> naming \<open>p0\<close> is ignored.
\<close>

theorem C1_started_call_under_other_id:
  "reachable1 (run1 [Register ''s1'' ''n1'' ''nurse'', Register ''s3'' ''p1'' ''patient'',
                     Register ''s3'' ''p9'' ''patient''] init1)
   \<and> (let m = run1 [Register ''s1'' ''n1'' ''nurse'', Register ''s3'' ''p1'' ''patient'',
                     Register ''s3'' ''p9'' ''patient''] init1;
           m' = fst (callUser1 ''s1'' ''p1'' m)
       in (To ''s1'', CallStartedTo ''p1'') \<in> set (snd (callUser1 ''s1'' ''p1'' m))
        \<and> activeCalls1 m' ''p1'' = None
        \<and> activeCalls1 m' ''n1'' = Some ''p9''
        \<and> activeCalls1 m' ''p9'' = Some ''n1''
        \<and> snd (endCall1 ''p1'' m') = []
        \<and> activeCalls1 (fst (endCall1 ''p1'' m')) ''n1'' = Some ''p9''
        \<and> map_option busy1 (getUserById (fst (endCall1 ''p1'' m')) ''n1'') = Some True
        \<and> map_option busy1 (getUserById (fst (endCall1 ''p1'' m')) ''p1'') = Some True
        \<and> snd (onEndCall1 ''s1'' ''p1'' m') = []
        \<and> activeCalls1 (fst (onEndCall1 ''s1'' ''p1'' m')) ''n1'' = Some ''p9'')
   \<and> reachable0 (run0 [Register ''s1'' ''__proto__'' ''nurse'',
                     Register ''s2'' ''p0'' ''patient''] init0)
   \<and> (let g = run0 [Register ''s1'' ''__proto__'' ''nurse'',
                     Register ''s2'' ''p0'' ''patient''] init0;
           g' = fst (callUser0 ''s2'' ''__proto__'' g)
       in (To ''s2'', CallStartedTo ''__proto__'') \<in> set (snd (callUser0 ''s2'' ''__proto__'' g))
        \<and> activeCalls0 g' ''p0'' = Some ''__proto__''
        \<and> objGet (activeCalls0 g') ''__proto__'' = JInherited ''__proto__''
        \<and> (To ''s2'', CallEnded ''__proto__'') \<notin> set (snd (endCall0 ''__proto__'' g'))
        \<and> map_option (busy0 \<circ> snd) (findEntryByUserId (fst (endCall0 ''__proto__'' g')) ''p0'')
            = Some True
        \<and> activeCalls0 (fst (endCall0 ''__proto__'' g')) ''p0'' = Some ''__proto__''
        \<and> snd (onEndCall0 ''s1'' ''p0'' g') = []
        \<and> activeCalls0 (fst (onEndCall0 ''s1'' ''p0'' g')) ''p0'' = Some ''__proto__'')"
proof (intro conjI)
  show "reachable1 (run1 [Register ''s1'' ''n1'' ''nurse'', Register ''s3'' ''p1'' ''patient'',
                     Register ''s3'' ''p9'' ''patient''] init1)"
    by (rule reachable1_run1 [OF reachable1_init])
  show "reachable0 (run0 [Register ''s1'' ''__proto__'' ''nurse'',
                     Register ''s2'' ''p0'' ''patient''] init0)"
    by (rule reachable0_run0 [OF reachable0_init])
qed code_simp+

subsection \<open>Disconnecting during a call\<close>

lemma cleanupUser_state:
  "map_of (users1 st) s = Some user \<Longrightarrow>
   fst (cleanupUser s st) =
     (fst (endCall1 (id1 user) st))
       \<lparr>waitingQueue1 := dropWaiting (id1 user) (waitingQueue1 (fst (endCall1 (id1 user) st))),
        users1 := AList.delete s (users1 (fst (endCall1 (id1 user) st))),
        userSockets1 := (userSockets1 (fst (endCall1 (id1 user) st)))(id1 user := None)\<rparr>"
  by (cases "activeCalls1 st (id1 user)")
     (simp_all add: cleanupUser_def Let_def split_beta endCall1_idle)

lemma cleanupUser_sent:
  "map_of (users1 st) s = Some user \<Longrightarrow>
   set (snd (endCall1 (id1 user) st)) \<subseteq> set (snd (cleanupUser s st))"
  by (cases "activeCalls1 st (id1 user)")
     (auto simp: cleanupUser_def Let_def split_beta endCall1_idle)

lemma getUserById_users_upd:
  "getUserById (st\<lparr>waitingQueue1 := q, users1 := AList.delete s (users1 st),
                   userSockets1 := (userSockets1 st)(u := None)\<rparr>) v =
     (if v = u then None
      else case userSockets1 st v of
             None \<Rightarrow> None
           | Some t \<Rightarrow> if t = s then None else map_of (users1 st) t)"
  by (simp add: getUserById_def delete_conv' split: option.splits)

lemma cleanupUser_in_call:
  assumes w: "wf1 st" and u: "map_of (users1 st) s = Some user"
    and c: "activeCalls1 st (id1 user) = Some p"
  shows "activeCalls1 (fst (cleanupUser s st)) (id1 user) = None"
    and "activeCalls1 (fst (cleanupUser s st)) p = None"
    and "getUserBySocketId (fst (cleanupUser s st)) s = None"
    and "getUserById (fst (cleanupUser s st)) (id1 user) = None"
    and "userSockets1 (fst (cleanupUser s st)) (id1 user) = None"
    and "id1 user \<notin> set (waitingQueue1 (fst (cleanupUser s st)))"
    and "\<forall>v. getUserById (fst (cleanupUser s st)) p = Some v \<longrightarrow> \<not> busy1 v"
    and "\<forall>pu. getUserById st p = Some pu \<and> socketId1 pu \<noteq> s \<longrightarrow>
           getUserById (fst (cleanupUser s st)) p = Some (pu\<lparr>busy1 := False\<rparr>)
           \<and> (To (socketId1 pu), CallEnded (id1 user)) \<in> set (snd (cleanupUser s st))"
proof -
  let ?a = "id1 user"
  let ?st1 = "unpaired1 ?a p st"
  note e1 = endCall1_state [OF w c]
  note e = cleanupUser_state [OF u, unfolded e1]
  have w1: "wf1 ?st1" by (rule wf1_unpaired1 [OF w])
  have k: "userSockets1 st ?a = Some s" using wf1_D [OF w u] by simp
  show "activeCalls1 (fst (cleanupUser s st)) ?a = None"
    and "activeCalls1 (fst (cleanupUser s st)) p = None"
    unfolding e by simp_all
  show "getUserBySocketId (fst (cleanupUser s st)) s = None"
    unfolding e by (simp add: getUserBySocketId_def delete_conv')
  show "getUserById (fst (cleanupUser s st)) ?a = None"
    unfolding e by (simp add: getUserById_def)
  show "userSockets1 (fst (cleanupUser s st)) ?a = None"
    unfolding e by simp
  show "?a \<notin> set (waitingQueue1 (fst (cleanupUser s st)))"
    unfolding e using wf1_queueD [OF w] by (simp add: dropWaiting_remove1)
  have g: "getUserById (fst (cleanupUser s st)) v =
             (if v = ?a then None
              else case userSockets1 st v of
                     None \<Rightarrow> None
                   | Some t \<Rightarrow> if t = s then None else map_of (users1 ?st1) t)" for v
    unfolding e using getUserById_users_upd [where st = ?st1 and s = s and u = ?a and v = v] by simp
  have g1: "getUserById ?st1 v =
             (case userSockets1 st v of None \<Rightarrow> None | Some t \<Rightarrow> map_of (users1 ?st1) t)" for v
    by (simp add: getUserById_def)
  have sub: "getUserById ?st1 v = Some x" if "getUserById (fst (cleanupUser s st)) v = Some x" for v x
    using that unfolding g g1 by (auto split: if_splits option.splits)
  have u1: "getUserById ?st1 p =
              (case getUserById st p of None \<Rightarrow> None | Some x \<Rightarrow> Some (x\<lparr>busy1 := False\<rparr>))"
    by (simp add: getUserById_unpaired1 [OF w] sockOf_def split: option.splits)
  show "\<forall>v. getUserById (fst (cleanupUser s st)) p = Some v \<longrightarrow> \<not> busy1 v"
  proof (intro allI impI)
    fix v assume "getUserById (fst (cleanupUser s st)) p = Some v"
    from sub [OF this] show "\<not> busy1 v" unfolding u1 by (auto split: option.splits)
  qed
  show "\<forall>pu. getUserById st p = Some pu \<and> socketId1 pu \<noteq> s \<longrightarrow>
           getUserById (fst (cleanupUser s st)) p = Some (pu\<lparr>busy1 := False\<rparr>)
           \<and> (To (socketId1 pu), CallEnded ?a) \<in> set (snd (cleanupUser s st))"
  proof (intro allI impI, elim conjE)
    fix pu assume pu: "getUserById st p = Some pu" and ns: "socketId1 pu \<noteq> s"
    note d = getUserById_SomeD [OF w pu]
    from d k ns have pa: "p \<noteq> ?a" by auto
    have "getUserById (fst (cleanupUser s st)) p = getUserById ?st1 p"
      unfolding g g1 using pa d ns by simp
    then have 1: "getUserById (fst (cleanupUser s st)) p = Some (pu\<lparr>busy1 := False\<rparr>)"
      unfolding u1 by (simp add: pu)
    have 2: "(To (socketId1 pu), CallEnded ?a) \<in> set (snd (cleanupUser s st))"
      using endCall1_notifies [OF w c pu] cleanupUser_sent [OF u] by blast
    from 1 2 show "getUserById (fst (cleanupUser s st)) p = Some (pu\<lparr>busy1 := False\<rparr>)
           \<and> (To (socketId1 pu), CallEnded ?a) \<in> set (snd (cleanupUser s st))" ..
  qed
qed

text \<open>
  Claim C9 does not hold of the object-based server. (For the Map-based server,
  \<open>cleanupUser_in_call\<close> above shows the release whenever the id of the disconnecting user
  has a binding.) The disconnect handler of part_000 calls \<^verbatim>\<open>endCall(user.id)\<close>, which reads
  the partner from the plain object \<^verbatim>\<open>activeCalls\<close>. For a nurse registered under the id
  \<open>__proto__\<close> and in a call with patient \<open>p0\<close>, that read gives the prototype object: the
  nurse is removed from the directory, but \<open>p0\<close> is sent no \<open>callEnded\<close>, stays busy, and
  keeps its binding to the nurse who is gone.
\<close>

theorem C9_nurse_named_proto_disconnects:
  "reachable0 (run0 [Register ''s1'' ''__proto__'' ''nurse'', Register ''s2'' ''p0'' ''patient'',
                     CallUser ''s2'' ''__proto__''] init0)
   \<and> (let g = run0 [Register ''s1'' ''__proto__'' ''nurse'', Register ''s2'' ''p0'' ''patient'',
                     CallUser ''s2'' ''__proto__''] init0;
           g' = fst (disconnect0 ''s1'' g)
       in map_of (users0 g) ''s1'' = Some \<lparr>id0 = ''__proto__'', role0 = ''nurse'', busy0 = True\<rparr>
        \<and> findEntryByUserId g ''p0''
            = Some (''s2'', \<lparr>id0 = ''p0'', role0 = ''patient'', busy0 = True\<rparr>)
        \<and> activeCalls0 g ''p0'' = Some ''__proto__''
        \<and> map_of (users0 g') ''s1'' = None
        \<and> findEntryByUserId g' ''p0''
            = Some (''s2'', \<lparr>id0 = ''p0'', role0 = ''patient'', busy0 = True\<rparr>)
        \<and> activeCalls0 g' ''p0'' = Some ''__proto__''
        \<and> (To ''s2'', CallEnded ''__proto__'') \<notin> set (snd (disconnect0 ''s1'' g)))"
proof (intro conjI)
  show "reachable0 (run0 [Register ''s1'' ''__proto__'' ''nurse'', Register ''s2'' ''p0'' ''patient'',
                     CallUser ''s2'' ''__proto__''] init0)"
    by (rule reachable0_run0 [OF reachable0_init])
qed code_simp+

subsection \<open>Admitting a waiting patient\<close>








subsection \<open>Registration\<close>

text \<open>
  Claim C4, as the specification states it: a registration whose id is mapped to a different
  connection fails, and a repeated registration of the same id from the same connection
  succeeds and returns the existing entry unchanged. The object-based server rejects the
  repeated registration like any other duplicate, and the Map-based server answers it with
  the id and role of the request, which need not be the stored role: a nurse that registers
  again as a patient is told \<open>patient\<close> and stays a nurse.
\<close>

theorem C4_reregistration_counterexample:
  "snd (register0 ''s1'' ''n1'' ''nurse'' (fst (register0 ''s1'' ''n1'' ''nurse'' init0)))
     = [(To ''s1'', ErrorMsg ''User ID already taken'')]
   \<and> snd (register1 ''s1'' ''n1'' ''patient'' (fst (register1 ''s1'' ''n1'' ''nurse'' init1)))
     = [(To ''s1'', Registered ''n1'' ''patient'')]
   \<and> map_option role1 (getUserById (fst (register1 ''s1'' ''n1'' ''patient''
         (fst (register1 ''s1'' ''n1'' ''nurse'' init1)))) ''n1'') = Some ''nurse''"
  by code_simp

text \<open>
  Claim C4, amended: for a valid id and role, the Map-based server leaves the state as it is
  when the id is in \<^verbatim>\<open>userSockets\<close>; it reports \<open>User ID already registered\<close> when the
  id belongs to another socket and acknowledges with the id and role of the request when
  it belongs to the same socket. The object-based server reports \<open>User ID already taken\<close>
  for every id some user has, whichever socket asks, and leaves the state as it is.
\<close>

theorem C4_register_duplicate:
  "(userId \<noteq> [] \<and> (role = ''nurse'' \<or> role = ''patient'') \<and> userSockets1 ms userId = Some t
    \<longrightarrow> register1 s userId role ms =
          (ms, [(To s, if t = s then Registered userId role
                        else ErrorMsg ''User ID already registered'')]))
   \<and> (userId \<noteq> [] \<and> (role = ''nurse'' \<or> role = ''patient'')
        \<and> (k, u) \<in> set (users0 os) \<and> id0 u = userId
    \<longrightarrow> register0 s userId role os = (os, [(To s, ErrorMsg ''User ID already taken'')]))"
  by (auto simp: register1_def register0_def list_ex_iff)

text \<open>
  The amended claim C4 at work: a second registration of \<open>n1\<close> from its own socket and from
  another socket on the Map-based server, and from its own socket on the object-based one.
\<close>

theorem C4_register_duplicate_witness:
  "register1 ''s1'' ''n1'' ''patient'' (fst (register1 ''s1'' ''n1'' ''nurse'' init1))
     = (fst (register1 ''s1'' ''n1'' ''nurse'' init1), [(To ''s1'', Registered ''n1'' ''patient'')])
   \<and> register1 ''s2'' ''n1'' ''nurse'' (fst (register1 ''s1'' ''n1'' ''nurse'' init1))
     = (fst (register1 ''s1'' ''n1'' ''nurse'' init1),
        [(To ''s2'', ErrorMsg ''User ID already registered'')])
   \<and> register0 ''s1'' ''n1'' ''nurse'' (fst (register0 ''s1'' ''n1'' ''nurse'' init0))
     = (fst (register0 ''s1'' ''n1'' ''nurse'' init0), [(To ''s1'', ErrorMsg ''User ID already taken'')])"
proof -
  let ?m = "fst (register1 ''s1'' ''n1'' ''nurse'' init1)"
  let ?o = "fst (register0 ''s1'' ''n1'' ''nurse'' init0)"
  have a: "userSockets1 ?m ''n1'' = Some ''s1''"
    by (simp add: register1_def init1_def Let_def)
  have b: "(''s1'', \<lparr>id0 = ''n1'', role0 = ''nurse'', busy0 = False\<rparr>) \<in> set (users0 ?o)"
    by (simp add: register0_def init0_def Let_def)
  show ?thesis
    using C4_register_duplicate [where userId = "''n1''" and role = "''patient''"
                                  and ms = ?m and t = "''s1''" and s = "''s1''"]
      C4_register_duplicate [where userId = "''n1''" and role = "''nurse''"
                                  and ms = ?m and t = "''s1''" and s = "''s2''"]
      C4_register_duplicate [where userId = "''n1''" and role = "''nurse''" and k = "''s1''"
         and u = "\<lparr>id0 = ''n1'', role0 = ''nurse'', busy0 = False\<rparr>"
         and os = ?o and s = "''s1''"]
      a b
    by simp
qed

text \<open>
  Claim C10: a rejected registration (empty id, a role other than \<open>nurse\<close> and \<open>patient\<close>,
  or an id that is taken) answers with an error and changes nothing: the state after is the
  state before, in both servers. Conversely a registration that answers with an error has
  not changed the state.
\<close>

theorem C10_rejected_register_unchanged:
  "(userId = [] \<or> (role \<noteq> ''nurse'' \<and> role \<noteq> ''patient'')
      \<or> (\<exists>t. userSockets1 ms userId = Some t \<and> t \<noteq> s)
    \<longrightarrow> (\<exists>m. register1 s userId role ms = (ms, [(To s, ErrorMsg m)])))
   \<and> ((\<exists>m. (To s, ErrorMsg m) \<in> set (snd (register1 s userId role ms)))
    \<longrightarrow> fst (register1 s userId role ms) = ms)
   \<and> (userId = [] \<or> (role \<noteq> ''nurse'' \<and> role \<noteq> ''patient'')
      \<or> (\<exists>k u. (k, u) \<in> set (users0 os) \<and> id0 u = userId)
    \<longrightarrow> (\<exists>m. register0 s userId role os = (os, [(To s, ErrorMsg m)])))
   \<and> ((\<exists>m. (To s, ErrorMsg m) \<in> set (snd (register0 s userId role os)))
    \<longrightarrow> fst (register0 s userId role os) = os)"
proof (intro conjI impI)
  assume "userId = [] \<or> (role \<noteq> ''nurse'' \<and> role \<noteq> ''patient'')
      \<or> (\<exists>t. userSockets1 ms userId = Some t \<and> t \<noteq> s)"
  then show "\<exists>m. register1 s userId role ms = (ms, [(To s, ErrorMsg m)])"
    by (auto simp: register1_def)
next
  assume "\<exists>m. (To s, ErrorMsg m) \<in> set (snd (register1 s userId role ms))"
  then show "fst (register1 s userId role ms) = ms"
    by (auto simp: register1_def Let_def broadcastOnlineUsers_def split: if_splits option.splits)
next
  assume "userId = [] \<or> (role \<noteq> ''nurse'' \<and> role \<noteq> ''patient'')
      \<or> (\<exists>k u. (k, u) \<in> set (users0 os) \<and> id0 u = userId)"
  then show "\<exists>m. register0 s userId role os = (os, [(To s, ErrorMsg m)])"
    by (auto simp: register0_def list_ex_iff)
next
  assume "\<exists>m. (To s, ErrorMsg m) \<in> set (snd (register0 s userId role os))"
  then show "fst (register0 s userId role os) = os"
    by (auto simp: register0_def Let_def split: if_splits)
qed

text \<open>Claim C10 at work: three rejected registrations against a state with one nurse.\<close>

theorem C10_rejected_register_witness:
  "fst (register1 ''s2'' ''n1'' ''patient'' (fst (register1 ''s1'' ''n1'' ''nurse'' init1)))
     = fst (register1 ''s1'' ''n1'' ''nurse'' init1)
   \<and> fst (register1 ''s2'' [] ''patient'' (fst (register1 ''s1'' ''n1'' ''nurse'' init1)))
     = fst (register1 ''s1'' ''n1'' ''nurse'' init1)
   \<and> fst (register1 ''s2'' ''x'' ''doctor'' (fst (register1 ''s1'' ''n1'' ''nurse'' init1)))
     = fst (register1 ''s1'' ''n1'' ''nurse'' init1)
   \<and> fst (register0 ''s2'' ''n1'' ''patient'' (fst (register0 ''s1'' ''n1'' ''nurse'' init0)))
     = fst (register0 ''s1'' ''n1'' ''nurse'' init0)
   \<and> fst (register0 ''s2'' [] ''patient'' (fst (register0 ''s1'' ''n1'' ''nurse'' init0)))
     = fst (register0 ''s1'' ''n1'' ''nurse'' init0)
   \<and> fst (register0 ''s2'' ''x'' ''doctor'' (fst (register0 ''s1'' ''n1'' ''nurse'' init0)))
     = fst (register0 ''s1'' ''n1'' ''nurse'' init0)"
proof -
  let ?m = "fst (register1 ''s1'' ''n1'' ''nurse'' init1)"
  let ?o = "fst (register0 ''s1'' ''n1'' ''nurse'' init0)"
  have a: "userSockets1 ?m ''n1'' = Some ''s1''"
    by (simp add: register1_def init1_def Let_def)
  have b: "(''s1'', \<lparr>id0 = ''n1'', role0 = ''nurse'', busy0 = False\<rparr>) \<in> set (users0 ?o)"
    by (simp add: register0_def init0_def Let_def)
  from a have a': "\<exists>t. userSockets1 ?m ''n1'' = Some t \<and> t \<noteq> ''s2''" by simp
  from b have b': "\<exists>k u. (k, u) \<in> set (users0 ?o) \<and> id0 u = ''n1''" by force
  note t1 = C10_rejected_register_unchanged
              [where userId = "''n1''" and role = "''patient''" and ms = ?m and os = ?o and s = "''s2''"]
  note t2 = C10_rejected_register_unchanged
              [where userId = "[]" and role = "''patient''" and ms = ?m and os = ?o and s = "''s2''"]
  note t3 = C10_rejected_register_unchanged
              [where userId = "''x''" and role = "''doctor''" and ms = ?m and os = ?o and s = "''s2''"]
  have "fst (register1 ''s2'' ''n1'' ''patient'' ?m) = ?m" using t1 a' by fastforce
  moreover have "fst (register0 ''s2'' ''n1'' ''patient'' ?o) = ?o" using t1 b' by fastforce
  moreover have "fst (register1 ''s2'' [] ''patient'' ?m) = ?m" using t2 by fastforce
  moreover have "fst (register0 ''s2'' [] ''patient'' ?o) = ?o" using t2 by fastforce
  moreover have "fst (register1 ''s2'' ''x'' ''doctor'' ?m) = ?m" using t3 by fastforce
  moreover have "fst (register0 ''s2'' ''x'' ''doctor'' ?o) = ?o" using t3 by fastforce
  ultimately show ?thesis by simp
qed

subsection \<open>Queueing a call to a busy nurse\<close>

text \<open>
  Claim C6: when a patient calls a nurse who is busy, the only change to the state is that
  the patient's id is pushed to the waiting queue unless it is there already, the caller is
  answered \<open>callWaiting\<close>, and calling a second time gives the state of calling once.
\<close>

theorem C6_busy_responder_queues_once:
  "(getUserBySocketId ms s = Some caller \<and> getUserById ms calleeId = Some callee
      \<and> busy1 callee \<and> role1 caller = ''patient'' \<and> role1 callee = ''nurse''
    \<longrightarrow> fst (callUser1 s calleeId ms)
          = ms\<lparr>waitingQueue1 := pushWaiting (id1 caller) (waitingQueue1 ms)\<rparr>
      \<and> (\<exists>m p. (To s, CallWaiting m p) \<in> set (snd (callUser1 s calleeId ms)))
      \<and> (id1 caller \<notin> set (waitingQueue1 ms)
           \<longrightarrow> waitingQueue1 (fst (callUser1 s calleeId ms)) = waitingQueue1 ms @ [id1 caller])
      \<and> (id1 caller \<in> set (waitingQueue1 ms) \<longrightarrow> fst (callUser1 s calleeId ms) = ms)
      \<and> fst (callUser1 s calleeId (fst (callUser1 s calleeId ms)))
          = fst (callUser1 s calleeId ms))
   \<and> (map_of (users0 os) s = Some ocaller
      \<and> findEntryByUserId os calleeId = Some (calleeSocket, ocallee)
      \<and> busy0 ocallee \<and> role0 ocaller = ''patient'' \<and> role0 ocallee = ''nurse''
    \<longrightarrow> fst (callUser0 s calleeId os)
          = os\<lparr>waitingQueue0 := pushWaiting (id0 ocaller) (waitingQueue0 os)\<rparr>
      \<and> (\<exists>m p. (To s, CallWaiting m p) \<in> set (snd (callUser0 s calleeId os)))
      \<and> (id0 ocaller \<notin> set (waitingQueue0 os)
           \<longrightarrow> waitingQueue0 (fst (callUser0 s calleeId os)) = waitingQueue0 os @ [id0 ocaller])
      \<and> (id0 ocaller \<in> set (waitingQueue0 os) \<longrightarrow> fst (callUser0 s calleeId os) = os)
      \<and> fst (callUser0 s calleeId (fst (callUser0 s calleeId os)))
          = fst (callUser0 s calleeId os))"
proof (intro conjI impI)
  assume h: "getUserBySocketId ms s = Some caller \<and> getUserById ms calleeId = Some callee
      \<and> busy1 callee \<and> role1 caller = ''patient'' \<and> role1 callee = ''nurse''"
  then have r: "role1 caller \<noteq> role1 callee" by simp
  show e: "fst (callUser1 s calleeId ms)
          = ms\<lparr>waitingQueue1 := pushWaiting (id1 caller) (waitingQueue1 ms)\<rparr>"
    using h r by (simp add: callUser1_def pushWaiting_def Let_def)
  show "\<exists>m p. (To s, CallWaiting m p) \<in> set (snd (callUser1 s calleeId ms))"
    using h r by (simp add: callUser1_def Let_def)
  have l: "getUserBySocketId (ms\<lparr>waitingQueue1 := q\<rparr>) s = Some caller
      \<and> getUserById (ms\<lparr>waitingQueue1 := q\<rparr>) calleeId = Some callee" for q
    using h by (auto simp: getUserBySocketId_def getUserById_def split: option.splits)
  show "fst (callUser1 s calleeId (fst (callUser1 s calleeId ms)))
          = fst (callUser1 s calleeId ms)"
    unfolding e using h r l by (simp add: callUser1_def pushWaiting_def Let_def)
  { assume "id1 caller \<notin> set (waitingQueue1 ms)"
    then show "waitingQueue1 (fst (callUser1 s calleeId ms)) = waitingQueue1 ms @ [id1 caller]"
      unfolding e by (simp add: pushWaiting_def) }
  { assume "id1 caller \<in> set (waitingQueue1 ms)"
    then show "fst (callUser1 s calleeId ms) = ms"
      unfolding e by (simp add: pushWaiting_def) }
next
  assume h: "map_of (users0 os) s = Some ocaller
      \<and> findEntryByUserId os calleeId = Some (calleeSocket, ocallee)
      \<and> busy0 ocallee \<and> role0 ocaller = ''patient'' \<and> role0 ocallee = ''nurse''"
  then have r: "role0 ocaller \<noteq> role0 ocallee" by simp
  show e: "fst (callUser0 s calleeId os)
          = os\<lparr>waitingQueue0 := pushWaiting (id0 ocaller) (waitingQueue0 os)\<rparr>"
    using h r by (simp add: callUser0_def pushWaiting_def)
  show "\<exists>m p. (To s, CallWaiting m p) \<in> set (snd (callUser0 s calleeId os))"
    using h r by (simp add: callUser0_def)
  have l: "findEntryByUserId (os\<lparr>waitingQueue0 := q\<rparr>) calleeId = Some (calleeSocket, ocallee)" for q
    using h by (simp add: findEntryByUserId_def)
  show "fst (callUser0 s calleeId (fst (callUser0 s calleeId os)))
          = fst (callUser0 s calleeId os)"
    unfolding e using h r l by (simp add: callUser0_def pushWaiting_def)
  { assume "id0 ocaller \<notin> set (waitingQueue0 os)"
    then show "waitingQueue0 (fst (callUser0 s calleeId os)) = waitingQueue0 os @ [id0 ocaller]"
      unfolding e by (simp add: pushWaiting_def) }
  { assume "id0 ocaller \<in> set (waitingQueue0 os)"
    then show "fst (callUser0 s calleeId os) = os"
      unfolding e by (simp add: pushWaiting_def) }
qed

text \<open>
  Claim C6 at work: nurse \<open>n1\<close> is in a call with \<open>p0\<close> when \<open>p1\<close> calls, once and
  twice.
\<close>

theorem C6_busy_responder_witness:
  "waitingQueue1 (fst (callUser1 ''s3'' ''n1''
      (run1 [Register ''s1'' ''n1'' ''nurse'', Register ''s2'' ''p0'' ''patient'',
             Register ''s3'' ''p1'' ''patient'', CallUser ''s2'' ''n1''] init1))) = [''p1'']
   \<and> waitingQueue1 (fst (callUser1 ''s3'' ''n1'' (fst (callUser1 ''s3'' ''n1''
      (run1 [Register ''s1'' ''n1'' ''nurse'', Register ''s2'' ''p0'' ''patient'',
             Register ''s3'' ''p1'' ''patient'', CallUser ''s2'' ''n1''] init1))))) = [''p1'']
   \<and> waitingQueue0 (fst (callUser0 ''s3'' ''n1''
      (run0 [Register ''s1'' ''n1'' ''nurse'', Register ''s2'' ''p0'' ''patient'',
             Register ''s3'' ''p1'' ''patient'', CallUser ''s2'' ''n1''] init0))) = [''p1'']
   \<and> waitingQueue0 (fst (callUser0 ''s3'' ''n1'' (fst (callUser0 ''s3'' ''n1''
      (run0 [Register ''s1'' ''n1'' ''nurse'', Register ''s2'' ''p0'' ''patient'',
             Register ''s3'' ''p1'' ''patient'', CallUser ''s2'' ''n1''] init0))))) = [''p1'']"
proof -
  define m where "m = run1 [Register ''s1'' ''n1'' ''nurse'', Register ''s2'' ''p0'' ''patient'',
             Register ''s3'' ''p1'' ''patient'', CallUser ''s2'' ''n1''] init1"
  define g where "g = run0 [Register ''s1'' ''n1'' ''nurse'', Register ''s2'' ''p0'' ''patient'',
             Register ''s3'' ''p1'' ''patient'', CallUser ''s2'' ''n1''] init0"
  let ?p1 = "\<lparr>id1 = ''p1'', role1 = ''patient'', busy1 = False, socketId1 = ''s3''\<rparr>"
  let ?n1 = "\<lparr>id1 = ''n1'', role1 = ''nurse'', busy1 = True, socketId1 = ''s1''\<rparr>"
  let ?p0 = "\<lparr>id0 = ''p1'', role0 = ''patient'', busy0 = False\<rparr>"
  let ?n0 = "\<lparr>id0 = ''n1'', role0 = ''nurse'', busy0 = True\<rparr>"
  have m: "getUserBySocketId m ''s3'' = Some ?p1" "getUserById m ''n1'' = Some ?n1"
          "waitingQueue1 m = []"
    unfolding m_def by code_simp+
  have g: "map_of (users0 g) ''s3'' = Some ?p0" "findEntryByUserId g ''n1'' = Some (''s1'', ?n0)"
          "waitingQueue0 g = []"
    unfolding g_def by code_simp+
  note t = C6_busy_responder_queues_once
             [where ms = m and os = g and s = "''s3''" and calleeId = "''n1''"
                and caller = ?p1 and callee = ?n1 and ocaller = ?p0 and ocallee = ?n0
                and calleeSocket = "''s1''"]
  have hm: "getUserBySocketId m ''s3'' = Some ?p1 \<and> getUserById m ''n1'' = Some ?n1
      \<and> busy1 ?n1 \<and> role1 ?p1 = ''patient'' \<and> role1 ?n1 = ''nurse''"
    using m by simp
  have hg: "map_of (users0 g) ''s3'' = Some ?p0
      \<and> findEntryByUserId g ''n1'' = Some (''s1'', ?n0)
      \<and> busy0 ?n0 \<and> role0 ?p0 = ''patient'' \<and> role0 ?n0 = ''nurse''"
    using g by simp
  note cm = t [THEN conjunct1, THEN mp, OF hm]
  note cg = t [THEN conjunct2, THEN mp, OF hg]
  have 1: "waitingQueue1 (fst (callUser1 ''s3'' ''n1'' m)) = [''p1'']"
    using cm [THEN conjunct2, THEN conjunct2, THEN conjunct1] m(3) by simp
  have 2: "fst (callUser1 ''s3'' ''n1'' (fst (callUser1 ''s3'' ''n1'' m)))
            = fst (callUser1 ''s3'' ''n1'' m)"
    by (rule cm [THEN conjunct2, THEN conjunct2, THEN conjunct2, THEN conjunct2])
  have 3: "waitingQueue0 (fst (callUser0 ''s3'' ''n1'' g)) = [''p1'']"
    using cg [THEN conjunct2, THEN conjunct2, THEN conjunct1] g(3) by simp
  have 4: "fst (callUser0 ''s3'' ''n1'' (fst (callUser0 ''s3'' ''n1'' g)))
            = fst (callUser0 ''s3'' ''n1'' g)"
    by (rule cg [THEN conjunct2, THEN conjunct2, THEN conjunct2, THEN conjunct2])
  show ?thesis unfolding m_def [symmetric] g_def [symmetric] 2 4 using 1 3 by simp
qed

subsection \<open>The relay handlers\<close>

text \<open>
  The relay handlers of the Map-based server return silently when the sender or the target
  is unknown, and so does every relay handler of the object-based server when the target is
  unknown, and its chat handler when the sender is unknown.
\<close>

lemma relay1_silent:
  "getUserBySocketId st s = None \<or> getUserById st to = None \<Longrightarrow> relay1 k now s body to st = []"
  by (auto simp: relay1_def split: option.splits)

lemma relay0_target_missing_silent:
  "findSocketByUserId st to = None \<Longrightarrow> relay0 k s body to st = Inr []"
  by (auto simp: relay0_def signal0_def chatMessage0_def split: option.splits)

lemma chatMessage0_silent:
  "map_of (users0 st) s = None \<or> findSocketByUserId st to = None
   \<Longrightarrow> relay0 ChatMessage s body to st = Inr []"
  by (auto simp: relay0_def chatMessage0_def split: option.splits)

text \<open>
  The handlers for \<open>offer\<close>, \<open>answer\<close> and \<open>ice-candidate\<close> of the object-based server
  throw exactly when the target is found and the sender is not registered.
\<close>

lemma signal0_throws_iff:
  "k \<noteq> ChatMessage \<Longrightarrow>
   relay0 k s body to st = Inl TypeError
     \<longleftrightarrow> findSocketByUserId st to \<noteq> None \<and> map_of (users0 st) s = None"
  by (auto simp: relay0_def signal0_def split: option.splits)

text \<open>
  Claim C7 says that a relay whose sender cannot be resolved is a silent no-op. In the
  object-based server a socket that never registered sends \<open>offer\<close>, \<open>answer\<close> or
  \<open>ice-candidate\<close> to the registered id \<open>n1\<close>: the handler throws a \<open>TypeError\<close>, where
  the chat handler beside it returns silently.
\<close>

theorem C7_offer_from_unregistered_socket_throws:
  "findSocketByUserId (fst (register0 ''s1'' ''n1'' ''nurse'' init0)) ''n1'' = Some ''s1''
   \<and> map_of (users0 (fst (register0 ''s1'' ''n1'' ''nurse'' init0))) ''s9'' = None
   \<and> relay0 Offer ''s9'' ''sdp'' ''n1'' (fst (register0 ''s1'' ''n1'' ''nurse'' init0)) = Inl TypeError
   \<and> relay0 Answer ''s9'' ''sdp'' ''n1'' (fst (register0 ''s1'' ''n1'' ''nurse'' init0)) = Inl TypeError
   \<and> relay0 IceCandidate ''s9'' ''c'' ''n1'' (fst (register0 ''s1'' ''n1'' ''nurse'' init0)) = Inl TypeError
   \<and> relay0 ChatMessage ''s9'' ''hi'' ''n1'' (fst (register0 ''s1'' ''n1'' ''nurse'' init0)) = Inr []"
  by code_simp

subsection \<open>Order of the waiting queue\<close>

lemma firstOccurrences_distinct: "distinct xs \<Longrightarrow> firstOccurrences xs = xs"
proof (induction xs)
  case Nil
  then show ?case by simp
next
  case (Cons x xs)
  then have "filter (\<lambda>y. y \<noteq> x) xs = xs" by (auto simp: filter_id_conv)
  with Cons show ?case by simp
qed

lemma firstOccurrences_append:
  "firstOccurrences (xs @ ys) = firstOccurrences xs @ firstOccurrences (filter (\<lambda>y. y \<notin> set xs) ys)"
proof (induction xs arbitrary: ys rule: firstOccurrences.induct)
  case 1
  then show ?case by simp
next
  case (2 x xs)
  have "filter (\<lambda>y. y \<notin> set (filter (\<lambda>y. y \<noteq> x) xs)) (filter (\<lambda>y. y \<noteq> x) ys)
          = filter (\<lambda>y. y \<notin> set (x # xs)) ys"
    by (auto intro: filter_cong)
  with "2.IH" [of "filter (\<lambda>y. y \<noteq> x) ys"] show ?case by simp
qed

lemma firstOccurrences_repeat:
  "x \<in> set xs \<Longrightarrow> firstOccurrences (xs @ x # ys) = firstOccurrences (xs @ ys)"
  by (simp add: firstOccurrences_append)

lemma qrun_append: "qrun (ops @ ops') q = qrun ops' (qrun ops q)"
  by (induction ops arbitrary: q) simp_all

lemma distinct_qstep: "distinct q \<Longrightarrow> distinct (qstep opn q)"
  by (cases opn) (simp_all add: pushWaiting_def dropWaiting_remove1)

lemma set_pushWaiting: "set (pushWaiting x q) = insert x (set q)"
  by (auto simp: pushWaiting_def)

lemma set_dropWaiting: "distinct q \<Longrightarrow> set (dropWaiting x q) = set q - {x}"
  by (simp add: dropWaiting_remove1)

lemma distinct_qrun: "distinct q \<Longrightarrow> distinct (qrun ops q)"
  by (induction ops arbitrary: q) (simp_all add: distinct_qstep)

lemma set_qrun: "distinct q \<Longrightarrow> set (qrun ops q) = waiting ops (set q)"
proof (induction ops arbitrary: q)
  case Nil
  then show ?case by simp
next
  case (Cons opn ops)
  then show ?case
    by (cases opn) (simp_all add: set_pushWaiting set_dropWaiting distinct_qstep [of _ "Enqueue _", simplified]
                      distinct_qstep [of _ "Remove _", simplified])
qed

lemma fifo_taken:
  assumes "distinct q" and "\<And>x. x \<in> takenOut ops (set q) \<Longrightarrow> \<not> P x"
  shows "filter P (qrun ops q) = firstOccurrences (filter P (q @ enqueued ops))"
  using assms
proof (induction ops arbitrary: q)
  case Nil
  then show ?case by (simp add: firstOccurrences_distinct)
next
  case (Cons opn ops)
  show ?case
  proof (cases opn)
    case (Enqueue x)
    have r: "\<And>y. y \<in> takenOut ops (insert x (set q)) \<Longrightarrow> \<not> P y"
      using Cons.prems(2) Enqueue by simp
    show ?thesis
    proof (cases "x \<in> set q")
      case True
      then have "insert x (set q) = set q" by auto
      with r have r': "\<And>y. y \<in> takenOut ops (set q) \<Longrightarrow> \<not> P y" by simp
      from Cons.IH [OF Cons.prems(1) r']
      have "filter P (qrun ops q) = firstOccurrences (filter P q @ filter P (enqueued ops))" by simp
      moreover have "firstOccurrences (filter P q @ filter P (x # enqueued ops))
                       = firstOccurrences (filter P q @ filter P (enqueued ops))"
        using True by (simp add: firstOccurrences_repeat)
      ultimately show ?thesis using True Enqueue by (simp add: pushWaiting_def)
    next
      case False
      with Cons.prems(1) have d: "distinct (q @ [x])" by simp
      have "\<And>y. y \<in> takenOut ops (set (q @ [x])) \<Longrightarrow> \<not> P y" using r by simp
      from Cons.IH [OF d this] show ?thesis using False Enqueue by (simp add: pushWaiting_def)
    qed
  next
    case (Remove x)
    have d: "distinct (remove1 x q)" using Cons.prems(1) by simp
    have s: "set (remove1 x q) = set q - {x}" using Cons.prems(1) by simp
    have r: "\<And>y. y \<in> takenOut ops (set (remove1 x q)) \<Longrightarrow> \<not> P y"
      using Cons.prems(2) Remove unfolding s by simp
    have "filter P (remove1 x q) = filter P q"
    proof (cases "x \<in> set q")
      case True
      with Cons.prems(2) Remove have "\<not> P x" by simp
      then show ?thesis
        using Cons.prems(1) by (simp add: distinct_remove1_removeAll removeAll_filter_not_eq)
           (auto intro: filter_cong)
    next
      case False
      then show ?thesis by (simp add: remove1_idem)
    qed
    with Cons.IH [OF d r] show ?thesis using Remove by (simp add: dropWaiting_remove1)
  qed
qed

lemma step1_queue: "waitingQueue1 (fst (step1 a st)) = qrun (queueOps1 a st) (waitingQueue1 st)"
proof (cases a)
  case (Register s userId role)
  then show ?thesis by (simp add: register1_def Let_def split: option.splits)
next
  case (CallUser s calleeId)
  then show ?thesis
    by (auto simp: callUser1_def Let_def pushWaiting_def startCall1_def split: option.splits)
next
  case (AcceptWaiting s patientId)
  then show ?thesis
    by (auto simp: acceptWaiting1_def Let_def dropWaiting_def startCall1_def split: option.splits)
next
  case (EndCall s to)
  have "waitingQueue1 (fst (endCall1 u st)) = waitingQueue1 st" for u
    by (simp add: endCall1_def Let_def split: option.splits)
  with EndCall show ?thesis by (simp add: onEndCall1_def split: option.splits)
next
  case (Disconnect s)
  have "waitingQueue1 (fst (endCall1 u st)) = waitingQueue1 st" for u
    by (simp add: endCall1_def Let_def split: option.splits)
  with Disconnect show ?thesis
    by (auto simp: cleanupUser_def Let_def split_beta getUserBySocketId_def split: option.splits)
qed

lemma run1_queue: "waitingQueue1 (run1 as st) = qrun (traceOps1 as st) (waitingQueue1 st)"
  by (induction as arbitrary: st) (simp_all add: step1_queue qrun_append)

lemma step0_queue: "waitingQueue0 (fst (step0 a st)) = qrun (queueOps0 a st) (waitingQueue0 st)"
proof (cases a)
  case (Register s userId role)
  then show ?thesis by (simp add: register0_def Let_def)
next
  case (CallUser s calleeId)
  then show ?thesis
    by (auto simp: callUser0_def Let_def pushWaiting_def startCall0_def split: option.splits)
next
  case (AcceptWaiting s patientId)
  then show ?thesis
    by (auto simp: acceptWaiting0_def Let_def dropWaiting_def startCall0_def split: option.splits)
next
  case (EndCall s to)
  have "waitingQueue0 (fst (endCall0 u st)) = waitingQueue0 st" for u
    by (simp add: endCall0_def Let_def split: option.splits)
  with EndCall show ?thesis by (simp add: onEndCall0_def split: option.splits)
next
  case (Disconnect s)
  have "waitingQueue0 (fst (endCall0 u st)) = waitingQueue0 st" for u
    by (simp add: endCall0_def Let_def split: option.splits)
  with Disconnect show ?thesis
    by (auto simp: disconnect0_def Let_def split_beta split: option.splits)
qed

lemma run0_queue: "waitingQueue0 (run0 as st) = qrun (traceOps0 as st) (waitingQueue0 st)"
  by (induction as arbitrary: st) (simp_all add: step0_queue qrun_append)

text \<open>
  Claim C8: for every sequence of \<open>enqueue\<close> and \<open>remove\<close> operations on a queue without
  duplicates, the queue stays without duplicates, it holds exactly the ids that wait
  (\<open>waiting\<close>: enqueued, or in the starting queue, and not taken out since), and the ids that
  were never taken out (no \<open>remove\<close> found them in the queue) stand in it in the order of
  their first appearance: first the ids of the starting queue, then the ids enqueued, each
  at its first \<open>enqueue\<close>. Every run of either server from the initial state changes the
  queue by exactly the operations \<open>traceOps\<close> lists, so the ids that were queued and neither
  admitted nor dropped at a disconnect stand in \<^verbatim>\<open>waitingQueue\<close> in the order in which they
  were queued; and \<^verbatim>\<open>getWaitingQueue\<close> sends a nurse that array as it is.
\<close>

theorem C8_queue_fifo:
  "(distinct q \<longrightarrow>
      distinct (qrun ops q)
    \<and> set (qrun ops q) = waiting ops (set q)
    \<and> filter (\<lambda>x. x \<notin> takenOut ops (set q)) (qrun ops q)
        = firstOccurrences (filter (\<lambda>x. x \<notin> takenOut ops (set q)) (q @ enqueued ops)))
   \<and> waitingQueue1 (run1 as init1) = qrun (traceOps1 as init1) []
   \<and> filter (\<lambda>x. x \<notin> takenOut (traceOps1 as init1) {}) (waitingQueue1 (run1 as init1))
        = firstOccurrences (filter (\<lambda>x. x \<notin> takenOut (traceOps1 as init1) {})
                             (enqueued (traceOps1 as init1)))
   \<and> waitingQueue0 (run0 as init0) = qrun (traceOps0 as init0) []
   \<and> filter (\<lambda>x. x \<notin> takenOut (traceOps0 as init0) {}) (waitingQueue0 (run0 as init0))
        = firstOccurrences (filter (\<lambda>x. x \<notin> takenOut (traceOps0 as init0) {})
                             (enqueued (traceOps0 as init0)))
   \<and> (getUserBySocketId ms s = Some user \<and> role1 user = ''nurse'' \<longrightarrow>
        getWaitingQueue s ms = [(To s, WaitingQueue (waitingQueue1 ms) (length (waitingQueue1 ms)))])"
proof (intro conjI impI)
  assume d: "distinct q"
  then show "distinct (qrun ops q)" by (rule distinct_qrun)
  from d show "set (qrun ops q) = waiting ops (set q)" by (rule set_qrun)
  from d show "filter (\<lambda>x. x \<notin> takenOut ops (set q)) (qrun ops q)
        = firstOccurrences (filter (\<lambda>x. x \<notin> takenOut ops (set q)) (q @ enqueued ops))"
    by (rule fifo_taken) simp
next
  show 1: "waitingQueue1 (run1 as init1) = qrun (traceOps1 as init1) []"
    using run1_queue [of as init1] by (simp add: init1_def)
  show "filter (\<lambda>x. x \<notin> takenOut (traceOps1 as init1) {}) (waitingQueue1 (run1 as init1))
        = firstOccurrences (filter (\<lambda>x. x \<notin> takenOut (traceOps1 as init1) {})
                             (enqueued (traceOps1 as init1)))"
    unfolding 1
    using fifo_taken [of "[]" "traceOps1 as init1" "\<lambda>x. x \<notin> takenOut (traceOps1 as init1) {}"]
    by simp
next
  show 0: "waitingQueue0 (run0 as init0) = qrun (traceOps0 as init0) []"
    using run0_queue [of as init0] by (simp add: init0_def)
  show "filter (\<lambda>x. x \<notin> takenOut (traceOps0 as init0) {}) (waitingQueue0 (run0 as init0))
        = firstOccurrences (filter (\<lambda>x. x \<notin> takenOut (traceOps0 as init0) {})
                             (enqueued (traceOps0 as init0)))"
    unfolding 0
    using fifo_taken [of "[]" "traceOps0 as init0" "\<lambda>x. x \<notin> takenOut (traceOps0 as init0) {}"]
    by simp
next
  assume "getUserBySocketId ms s = Some user \<and> role1 user = ''nurse''"
  then show "getWaitingQueue s ms = [(To s, WaitingQueue (waitingQueue1 ms) (length (waitingQueue1 ms)))]"
    by (simp add: getWaitingQueue_def)
qed

text \<open>
  Claim C8 at work: on a queue that starts with \<open>a\<close>, where \<open>remove c\<close> comes before
  \<open>c\<close> is enqueued and takes nothing out; on a run of both servers in which the nurse first
  tries to admit \<open>p2\<close> before it queues, then \<open>p1\<close>, \<open>p2\<close>, \<open>p3\<close> queue, \<open>p1\<close> asks
  again, and \<open>p2\<close> is admitted; and on the read by a nurse.
\<close>

theorem C8_queue_fifo_witness:
  "qrun [Enqueue ''b'', Enqueue ''a'', Remove ''c'', Enqueue ''c'', Enqueue ''d'', Remove ''b'']
        [''a''] = [''a'', ''c'', ''d'']
   \<and> takenOut [Enqueue ''b'', Enqueue ''a'', Remove ''c'', Enqueue ''c'', Enqueue ''d'',
                 Remove ''b''] (set [''a'']) = {''b''}
   \<and> waitingQueue1 (run1 [Register ''s1'' ''n1'' ''nurse'', Register ''s2'' ''p0'' ''patient'',
       Register ''s3'' ''p1'' ''patient'', Register ''s4'' ''p2'' ''patient'',
       Register ''s5'' ''p3'' ''patient'', CallUser ''s2'' ''n1'',
       AcceptWaiting ''s1'' ''p2'', CallUser ''s3'' ''n1'', CallUser ''s4'' ''n1'',
       CallUser ''s5'' ''n1'', CallUser ''s3'' ''n1'', Disconnect ''s2'',
       AcceptWaiting ''s1'' ''p2'', Disconnect ''s1''] init1) = [''p1'', ''p3'']
   \<and> takenOut (traceOps1 [Register ''s1'' ''n1'' ''nurse'', Register ''s2'' ''p0'' ''patient'',
       Register ''s3'' ''p1'' ''patient'', Register ''s4'' ''p2'' ''patient'',
       Register ''s5'' ''p3'' ''patient'', CallUser ''s2'' ''n1'',
       AcceptWaiting ''s1'' ''p2'', CallUser ''s3'' ''n1'', CallUser ''s4'' ''n1'',
       CallUser ''s5'' ''n1'', CallUser ''s3'' ''n1'', Disconnect ''s2'',
       AcceptWaiting ''s1'' ''p2'', Disconnect ''s1''] init1) {} = {''p2''}
   \<and> waitingQueue0 (run0 [Register ''s1'' ''n1'' ''nurse'', Register ''s2'' ''p0'' ''patient'',
       Register ''s3'' ''p1'' ''patient'', Register ''s4'' ''p2'' ''patient'',
       Register ''s5'' ''p3'' ''patient'', CallUser ''s2'' ''n1'',
       AcceptWaiting ''s1'' ''p2'', CallUser ''s3'' ''n1'', CallUser ''s4'' ''n1'',
       CallUser ''s5'' ''n1'', CallUser ''s3'' ''n1'', Disconnect ''s2'',
       AcceptWaiting ''s1'' ''p2'', Disconnect ''s1''] init0) = [''p1'', ''p3'']
   \<and> takenOut (traceOps0 [Register ''s1'' ''n1'' ''nurse'', Register ''s2'' ''p0'' ''patient'',
       Register ''s3'' ''p1'' ''patient'', Register ''s4'' ''p2'' ''patient'',
       Register ''s5'' ''p3'' ''patient'', CallUser ''s2'' ''n1'',
       AcceptWaiting ''s1'' ''p2'', CallUser ''s3'' ''n1'', CallUser ''s4'' ''n1'',
       CallUser ''s5'' ''n1'', CallUser ''s3'' ''n1'', Disconnect ''s2'',
       AcceptWaiting ''s1'' ''p2'', Disconnect ''s1''] init0) {} = {''p2''}
   \<and> getWaitingQueue ''s1'' (fst (register1 ''s1'' ''n1'' ''nurse'' init1))
       = [(To ''s1'', WaitingQueue [] 0)]"
proof -
  let ?ops = "[Enqueue ''b'', Enqueue ''a'', Remove ''c'', Enqueue ''c'', Enqueue ''d'', Remove ''b'']"
  define tr where "tr = [Register ''s1'' ''n1'' ''nurse'', Register ''s2'' ''p0'' ''patient'',
       Register ''s3'' ''p1'' ''patient'', Register ''s4'' ''p2'' ''patient'',
       Register ''s5'' ''p3'' ''patient'', CallUser ''s2'' ''n1'',
       AcceptWaiting ''s1'' ''p2'', CallUser ''s3'' ''n1'', CallUser ''s4'' ''n1'',
       CallUser ''s5'' ''n1'', CallUser ''s3'' ''n1'', Disconnect ''s2'',
       AcceptWaiting ''s1'' ''p2'', Disconnect ''s1'']"
  define m where "m = fst (register1 ''s1'' ''n1'' ''nurse'' init1)"
  let ?n = "\<lparr>id1 = ''n1'', role1 = ''nurse'', busy1 = False, socketId1 = ''s1''\<rparr>"
  have d: "distinct [''a'']" by simp
  have k: "takenOut ?ops (set [''a'']) = {''b''}" by code_simp
  have k1: "takenOut (traceOps1 tr init1) {} = {''p2''}" unfolding tr_def by code_simp
  have k0: "takenOut (traceOps0 tr init0) {} = {''p2''}" unfolding tr_def by code_simp
  have e: "firstOccurrences (filter (\<lambda>x. x \<notin> {''b''}) ([''a''] @ enqueued ?ops))
             = [''a'', ''c'', ''d'']"
    by simp
  have e1: "firstOccurrences (filter (\<lambda>x. x \<notin> {''p2''}) (enqueued (traceOps1 tr init1)))
             = [''p1'', ''p3'']"
    unfolding tr_def by code_simp
  have e0: "firstOccurrences (filter (\<lambda>x. x \<notin> {''p2''}) (enqueued (traceOps0 tr init0)))
             = [''p1'', ''p3'']"
    unfolding tr_def by code_simp
  have w: "waiting ?ops (set [''a'']) = {''a'', ''c'', ''d''}" by code_simp
  have w1: "set (qrun (traceOps1 tr init1) []) = {''p1'', ''p3''}" unfolding tr_def by code_simp
  have w0: "set (qrun (traceOps0 tr init0) []) = {''p1'', ''p3''}" unfolding tr_def by code_simp
  have l: "getUserBySocketId m ''s1'' = Some ?n \<and> role1 ?n = ''nurse''" "waitingQueue1 m = []"
    unfolding m_def by code_simp+
  note t = C8_queue_fifo [where q = "[''a'']" and ops = ?ops and as = tr and ms = m
                            and s = "''s1''" and user = ?n]
  note tq = t [THEN conjunct1, THEN mp, OF d]
  have "set (qrun ?ops [''a'']) = {''a'', ''c'', ''d''}"
    using tq [THEN conjunct2, THEN conjunct1] w by (simp only:)
  then have f: "filter (\<lambda>x. x \<notin> {''b''}) (qrun ?ops [''a'']) = qrun ?ops [''a'']"
    by (intro filter_True) auto
  from tq [THEN conjunct2, THEN conjunct2] have 1: "qrun ?ops [''a''] = [''a'', ''c'', ''d'']"
    unfolding k e f .
  note q1 = t [THEN conjunct2, THEN conjunct1]
  have f1: "filter (\<lambda>x. x \<notin> {''p2''}) (waitingQueue1 (run1 tr init1)) = waitingQueue1 (run1 tr init1)"
    unfolding q1 using w1 by (intro filter_True) auto
  from t [THEN conjunct2, THEN conjunct2, THEN conjunct1]
  have 2: "waitingQueue1 (run1 tr init1) = [''p1'', ''p3'']"
    unfolding k1 e1 f1 .
  note q0 = t [THEN conjunct2, THEN conjunct2, THEN conjunct2, THEN conjunct1]
  have f0: "filter (\<lambda>x. x \<notin> {''p2''}) (waitingQueue0 (run0 tr init0)) = waitingQueue0 (run0 tr init0)"
    unfolding q0 using w0 by (intro filter_True) auto
  from t [THEN conjunct2, THEN conjunct2, THEN conjunct2, THEN conjunct2, THEN conjunct1]
  have 3: "waitingQueue0 (run0 tr init0) = [''p1'', ''p3'']"
    unfolding k0 e0 f0 .
  from t [THEN conjunct2, THEN conjunct2, THEN conjunct2, THEN conjunct2, THEN conjunct2,
          THEN mp, OF l(1)] l(2)
  have 4: "getWaitingQueue ''s1'' m = [(To ''s1'', WaitingQueue [] 0)]" by simp
  show ?thesis
    unfolding tr_def [symmetric] m_def [symmetric] using 1 2 3 4 k k1 k0 by (simp only: simp_thms)
qed

subsection \<open>Calls started for a busy participant\<close>

text \<open>
  Claim C2 says that no call is started for a busy participant and that no binding is
  overwritten. \<^verbatim>\<open>callUser\<close> tests the busy flag of the callee only. Here patient \<open>p0\<close>,
  busy in a call with nurse \<open>n1\<close>, calls the idle nurse \<open>n2\<close>: both servers answer
  \<open>callStarted\<close>, the binding of \<open>p0\<close> is overwritten with \<open>n2\<close>, and \<open>n1\<close> stays busy and
  bound to \<open>p0\<close>, so that \<open>p0\<close> is the partner in two bindings.
\<close>

theorem C2_busy_caller_overwrites_binding:
  "reachable1 (run1 [Register ''s1'' ''n1'' ''nurse'', Register ''s2'' ''p0'' ''patient'',
                     Register ''s3'' ''n2'' ''nurse'', CallUser ''s2'' ''n1''] init1)
   \<and> (let m = run1 [Register ''s1'' ''n1'' ''nurse'', Register ''s2'' ''p0'' ''patient'',
                     Register ''s3'' ''n2'' ''nurse'', CallUser ''s2'' ''n1''] init1;
           m' = fst (callUser1 ''s2'' ''n2'' m)
       in map_option busy1 (getUserById m ''p0'') = Some True
        \<and> activeCalls1 m ''p0'' = Some ''n1''
        \<and> (To ''s2'', CallStartedTo ''n2'') \<in> set (snd (callUser1 ''s2'' ''n2'' m))
        \<and> activeCalls1 m' ''p0'' = Some ''n2''
        \<and> activeCalls1 m' ''n2'' = Some ''p0''
        \<and> activeCalls1 m' ''n1'' = Some ''p0''
        \<and> map_option busy1 (getUserById m' ''n1'') = Some True)
   \<and> reachable0 (run0 [Register ''s1'' ''n1'' ''nurse'', Register ''s2'' ''p0'' ''patient'',
                     Register ''s3'' ''n2'' ''nurse'', CallUser ''s2'' ''n1''] init0)
   \<and> (let g = run0 [Register ''s1'' ''n1'' ''nurse'', Register ''s2'' ''p0'' ''patient'',
                     Register ''s3'' ''n2'' ''nurse'', CallUser ''s2'' ''n1''] init0;
           g' = fst (callUser0 ''s2'' ''n2'' g)
       in map_option (busy0 \<circ> snd) (findEntryByUserId g ''p0'') = Some True
        \<and> activeCalls0 g ''p0'' = Some ''n1''
        \<and> (To ''s2'', CallStartedTo ''n2'') \<in> set (snd (callUser0 ''s2'' ''n2'' g))
        \<and> activeCalls0 g' ''p0'' = Some ''n2''
        \<and> activeCalls0 g' ''n2'' = Some ''p0''
        \<and> activeCalls0 g' ''n1'' = Some ''p0''
        \<and> map_option (busy0 \<circ> snd) (findEntryByUserId g' ''n1'') = Some True)"
proof (intro conjI)
  show "reachable1 (run1 [Register ''s1'' ''n1'' ''nurse'', Register ''s2'' ''p0'' ''patient'',
                     Register ''s3'' ''n2'' ''nurse'', CallUser ''s2'' ''n1''] init1)"
    by (rule reachable1_run1 [OF reachable1_init])
  show "reachable0 (run0 [Register ''s1'' ''n1'' ''nurse'', Register ''s2'' ''p0'' ''patient'',
                     Register ''s3'' ''n2'' ''nurse'', CallUser ''s2'' ''n1''] init0)"
    by (rule reachable0_run0 [OF reachable0_init])
qed code_simp+

text \<open>
  Claim C3 says that a queued id is never busy. Here \<open>p1\<close> is queued behind the call of
  \<open>p0\<close> with nurse \<open>n1\<close>; \<open>p0\<close> hangs up and \<open>p1\<close> calls \<open>n1\<close> again: the call starts,
  and \<open>p1\<close> is busy, bound to \<open>n1\<close> and still in the queue, in both servers. Only
  \<^verbatim>\<open>acceptWaiting\<close> and the disconnect clean-up take an id out of the queue.
\<close>

theorem C3_queued_patient_in_call:
  "reachable1 (run1 [Register ''s1'' ''n1'' ''nurse'', Register ''s2'' ''p0'' ''patient'',
                     Register ''s3'' ''p1'' ''patient'', CallUser ''s2'' ''n1'',
                     CallUser ''s3'' ''n1'', EndCall ''s2'' ''n1'', CallUser ''s3'' ''n1''] init1)
   \<and> (let m = run1 [Register ''s1'' ''n1'' ''nurse'', Register ''s2'' ''p0'' ''patient'',
                     Register ''s3'' ''p1'' ''patient'', CallUser ''s2'' ''n1'',
                     CallUser ''s3'' ''n1'', EndCall ''s2'' ''n1'', CallUser ''s3'' ''n1''] init1
       in ''p1'' \<in> set (waitingQueue1 m)
        \<and> map_option busy1 (getUserById m ''p1'') = Some True
        \<and> activeCalls1 m ''p1'' = Some ''n1'')
   \<and> reachable0 (run0 [Register ''s1'' ''n1'' ''nurse'', Register ''s2'' ''p0'' ''patient'',
                     Register ''s3'' ''p1'' ''patient'', CallUser ''s2'' ''n1'',
                     CallUser ''s3'' ''n1'', EndCall ''s2'' ''n1'', CallUser ''s3'' ''n1''] init0)
   \<and> (let g = run0 [Register ''s1'' ''n1'' ''nurse'', Register ''s2'' ''p0'' ''patient'',
                     Register ''s3'' ''p1'' ''patient'', CallUser ''s2'' ''n1'',
                     CallUser ''s3'' ''n1'', EndCall ''s2'' ''n1'', CallUser ''s3'' ''n1''] init0
       in ''p1'' \<in> set (waitingQueue0 g)
        \<and> map_option (busy0 \<circ> snd) (findEntryByUserId g ''p1'') = Some True
        \<and> activeCalls0 g ''p1'' = Some ''n1'')"
proof (intro conjI)
  show "reachable1 (run1 [Register ''s1'' ''n1'' ''nurse'', Register ''s2'' ''p0'' ''patient'',
                     Register ''s3'' ''p1'' ''patient'', CallUser ''s2'' ''n1'',
                     CallUser ''s3'' ''n1'', EndCall ''s2'' ''n1'', CallUser ''s3'' ''n1''] init1)"
    by (rule reachable1_run1 [OF reachable1_init])
  show "reachable0 (run0 [Register ''s1'' ''n1'' ''nurse'', Register ''s2'' ''p0'' ''patient'',
                     Register ''s3'' ''p1'' ''patient'', CallUser ''s2'' ''n1'',
                     CallUser ''s3'' ''n1'', EndCall ''s2'' ''n1'', CallUser ''s3'' ''n1''] init0)"
    by (rule reachable0_run0 [OF reachable0_init])
qed code_simp+

end
